theory Spec2Isabelle
  imports Complex_Main
begin

section \<open>The ensemble sampler of kombine (src/kombine/sampler.py)\<close>

text \<open>
  The development embeds \<^verbatim>\<open>Sampler.__init__\<close> and \<^verbatim>\<open>Sampler.sample\<close>.
  Conventions of the embedding:
  \<^item> a numpy array of shape \<open>(n,)\<close> is the list of its \<open>n\<close> entries, an array of shape
    \<open>(n, d)\<close> the list of its \<open>n\<close> rows, the chain of shape \<open>(t, n, d)\<close> the list of its
    \<open>t\<close> slots. The first axis of every array (the walker axis) is tracked and numpy's
    broadcasting and indexing errors on it are branches of the model; position rows are
    copied whole and their common width is not checked;
  \<^item> a float64 is a value of \<open>fl\<close>: NaN, the two infinities, or a real number. Sums and
    differences of finite values are exact (rounding, overflow and signed zeros are
    not modelled); the special values follow IEEE 754;
  \<^item> arrays the caller can see live in a store, addressed by natural numbers, so that
    in-place assignment and rebinding of a name can be told apart;
  \<^item> \<^verbatim>\<open>OptimizedKDE\<close> (module clustered_kde, not part of the sources at hand), the
    global numpy random generator and the two user callbacks are parameters.
\<close>

subsection \<open>Floating-point values\<close>

datatype fl = NaN | NInf | Fin real | PInf

fun fl_neg :: "fl \<Rightarrow> fl" where
  "fl_neg NaN = NaN"
| "fl_neg NInf = PInf"
| "fl_neg (Fin x) = Fin (- x)"
| "fl_neg PInf = NInf"

fun fl_add :: "fl \<Rightarrow> fl \<Rightarrow> fl" where
  "fl_add NaN b = NaN"
| "fl_add a NaN = NaN"
| "fl_add (Fin x) (Fin y) = Fin (x + y)"
| "fl_add (Fin x) b = b"
| "fl_add a (Fin y) = a"
| "fl_add PInf PInf = PInf"
| "fl_add NInf NInf = NInf"
| "fl_add PInf NInf = NaN"
| "fl_add NInf PInf = NaN"

definition fl_sub :: "fl \<Rightarrow> fl \<Rightarrow> fl" where
  "fl_sub a b = fl_add a (fl_neg b)"

text \<open>\<open>a > b\<close> on floats: false as soon as one side is NaN.\<close>

fun fl_gt :: "fl \<Rightarrow> fl \<Rightarrow> bool" where
  "fl_gt NaN b = False"
| "fl_gt a NaN = False"
| "fl_gt (Fin x) (Fin y) = (y < x)"
| "fl_gt NInf b = False"
| "fl_gt a PInf = False"
| "fl_gt PInf b = True"
| "fl_gt a NInf = True"

text \<open>\<^verbatim>\<open>np.log\<close>: \<open>-inf\<close> at zero, NaN below zero.\<close>

fun fl_log :: "fl \<Rightarrow> fl" where
  "fl_log NaN = NaN"
| "fl_log NInf = NaN"
| "fl_log PInf = PInf"
| "fl_log (Fin x) = (if 0 < x then Fin (ln x) else if x = 0 then NInf else NaN)"

text \<open>The value a boolean takes when it is stored into a float array.\<close>

definition fl_of_bool :: "bool \<Rightarrow> fl" where
  "fl_of_bool b = (if b then Fin 1 else Fin 0)"

subsection \<open>Errors and the numpy operations the sampler uses\<close>

datatype error = ValueError | IndexError | ZeroDivisionError | AttributeError | TypeError

definition bindE :: "'e + 'a \<Rightarrow> ('a \<Rightarrow> 'e + 'b) \<Rightarrow> 'e + 'b" where
  "bindE m f = (case m of Inl e \<Rightarrow> Inl e | Inr x \<Rightarrow> f x)"

text \<open>
  A binary operation on two one-dimensional arrays: equal shapes combine entry by
  entry, a one-entry array is stretched, any other pair of shapes raises ValueError.
\<close>

definition broadcast2 :: "('a \<Rightarrow> 'b \<Rightarrow> 'c) \<Rightarrow> 'a list \<Rightarrow> 'b list \<Rightarrow> error + 'c list" where
  "broadcast2 f xs ys =
     (if length xs = length ys then Inr (map2 f xs ys)
      else if length xs = 1 then Inr (map (f (hd xs)) ys)
      else if length ys = 1 then Inr (map (\<lambda>x. f x (hd ys)) xs)
      else Inl ValueError)"

definition np_add :: "fl list \<Rightarrow> fl list \<Rightarrow> error + fl list" where
  "np_add = broadcast2 fl_add"

definition np_sub :: "fl list \<Rightarrow> fl list \<Rightarrow> error + fl list" where
  "np_sub = broadcast2 fl_sub"

definition np_gt :: "fl list \<Rightarrow> fl list \<Rightarrow> error + bool list" where
  "np_gt = broadcast2 fl_gt"

text \<open>Assignment into a slot of first-axis length \<open>n\<close>: \<^verbatim>\<open>a[i, :] = xs\<close>.\<close>

definition broadcast_to :: "nat \<Rightarrow> 'a list \<Rightarrow> error + 'a list" where
  "broadcast_to n xs =
     (if length xs = n then Inr xs
      else if length xs = 1 then Inr (replicate n (hd xs))
      else Inl ValueError)"

text \<open>Boolean-mask selection \<^verbatim>\<open>a[mask]\<close> and assignment \<^verbatim>\<open>a[mask] = vals\<close>.\<close>

fun compress :: "bool list \<Rightarrow> 'a list \<Rightarrow> 'a list" where
  "compress (m # ms) (x # xs) = (if m then x # compress ms xs else compress ms xs)"
| "compress ms xs = []"

fun place :: "bool list \<Rightarrow> 'a list \<Rightarrow> 'a list \<Rightarrow> 'a list" where
  "place (m # ms) (x # xs) vs =
     (if m then (case vs of [] \<Rightarrow> x # place ms xs [] | v # vs' \<Rightarrow> v # place ms xs vs')
      else x # place ms xs vs)"
| "place ms xs vs = xs"

definition count_true :: "bool list \<Rightarrow> nat" where
  "count_true ms = length (filter (\<lambda>b. b) ms)"

definition masked_select :: "bool list \<Rightarrow> 'a list \<Rightarrow> error + 'a list" where
  "masked_select msk xs =
     (if length msk \<noteq> length xs then Inl IndexError else Inr (compress msk xs))"

definition masked_assign :: "bool list \<Rightarrow> 'a list \<Rightarrow> 'a list \<Rightarrow> error + 'a list" where
  "masked_assign msk xs vs =
     (if length msk \<noteq> length xs then Inl IndexError
      else if length vs = count_true msk then Inr (place msk xs vs)
      else if length vs = 1 then Inr (place msk xs (replicate (count_true msk) (hd vs)))
      else Inl ValueError)"

subsection \<open>The Metropolis-Hastings ratio (line 135)\<close>

text \<open>
  \<^verbatim>\<open>ln_mh_ratio = lnprior_p + lnlike_p - lnprior - lnlike + lnq - lnq_p\<close>,
  evaluated from left to right.
\<close>

definition ln_mh_ratio ::
  "fl list \<Rightarrow> fl list \<Rightarrow> fl list \<Rightarrow> fl list \<Rightarrow> fl list \<Rightarrow> fl list \<Rightarrow> error + fl list" where
  "ln_mh_ratio lnprior_p lnlike_p lnprior lnlike lnq lnq_p =
     bindE (np_add lnprior_p lnlike_p) (\<lambda>a.
     bindE (np_sub a lnprior) (\<lambda>b.
     bindE (np_sub b lnlike) (\<lambda>c.
     bindE (np_add c lnq) (\<lambda>d.
     np_sub d lnq_p))))"


subsection \<open>Arrays the caller can see\<close>

text \<open>
  One-dimensional and two-dimensional arrays are kept apart; \<open>nxt\<close> is the next
  address that has never been handed out, so an array created by a call is distinct
  from every array that existed before.
\<close>

record store =
  vec :: "nat \<Rightarrow> fl list"
  mat :: "nat \<Rightarrow> fl list list"
  nxt :: nat

definition new_vec :: "fl list \<Rightarrow> store \<Rightarrow> nat \<times> store" where
  "new_vec xs h = (nxt h, h\<lparr>vec := (vec h)(nxt h := xs), nxt := Suc (nxt h)\<rparr>)"

definition new_mat :: "fl list list \<Rightarrow> store \<Rightarrow> nat \<times> store" where
  "new_mat xs h = (nxt h, h\<lparr>mat := (mat h)(nxt h := xs), nxt := Suc (nxt h)\<rparr>)"

subsection \<open>The sampler object, its collaborators, and the state of a call\<close>

text \<open>The attributes set by \<^verbatim>\<open>__init__\<close> (lines 30 to 46).\<close>

record ('k, 'pl) sampler =
  nwalkers :: nat
  dim' :: nat
  get_lnprior :: "fl list list \<Rightarrow> fl list"
  get_lnlike :: "fl list list \<Rightarrow> fl list"
  iterations :: nat
  kde :: "'k option"
  pool :: "'pl option"
  accepted :: "fl list list"
  chain :: "fl list list list"
  lnpost :: "fl list list"
  lnprop :: "fl list list"

definition init ::
  "nat \<Rightarrow> nat \<Rightarrow> (fl list list \<Rightarrow> fl list) \<Rightarrow> (fl list list \<Rightarrow> fl list) \<Rightarrow> 'pl option
     \<Rightarrow> ('k, 'pl) sampler" where
  "init nw ndim lnpriorfn lnlikefn pl =
     \<lparr>nwalkers = nw, dim' = ndim, get_lnprior = lnpriorfn, get_lnlike = lnlikefn,
      iterations = 0, kde = None, pool = pl,
      accepted = [], chain = [], lnpost = [], lnprop = []\<rparr>"

text \<open>
  What the sampler calls and does not define: the constructor of the proposal, its
  density (\<^verbatim>\<open>kde(p)\<close>), its \<^verbatim>\<open>draw\<close>, and one variate of \<^verbatim>\<open>np.random.rand\<close>. \<open>'w\<close> is
  whatever these read and change outside the sampler (the state of the random
  generator).
\<close>

record ('k, 'pl, 'w) env =
  OptimizedKDE :: "fl list list \<Rightarrow> 'pl option \<Rightarrow> 'w \<Rightarrow> 'k \<times> 'w"
  kde_call :: "'k \<Rightarrow> fl list list \<Rightarrow> fl list"
  kde_draw :: "'k \<Rightarrow> nat \<Rightarrow> 'w \<Rightarrow> fl list list \<times> 'w"
  random_sample :: "'w \<Rightarrow> fl \<times> 'w"

text \<open>
  \<open>built\<close> is instrumentation: the value of \<^verbatim>\<open>self.iterations\<close> at every call of the
  constructor \<^verbatim>\<open>OptimizedKDE\<close>, in order.
\<close>

record ('k, 'pl, 'w) state =
  self :: "('k, 'pl) sampler"
  mem :: store
  world :: 'w
  built :: "nat list"

text \<open>The local names \<^verbatim>\<open>p\<close>, \<^verbatim>\<open>lnprior\<close>, \<^verbatim>\<open>lnlike\<close>, \<^verbatim>\<open>lnq\<close>: each refers to an array.\<close>

record frame =
  p_ref :: nat
  lnprior_ref :: nat
  lnlike_ref :: nat
  lnq_ref :: nat

text \<open>The arrays computed at the candidates in one step (lines 126 to 132).\<close>

record cand =
  p_p :: "fl list list"
  lnprior_p :: "fl list"
  lnlike_p :: "fl list"
  lnq_p :: "fl list"

definition set_vec :: "nat \<Rightarrow> fl list \<Rightarrow> ('k, 'pl, 'w) state \<Rightarrow> ('k, 'pl, 'w) state" where
  "set_vec a v st = st\<lparr>mem := (mem st)\<lparr>vec := (vec (mem st))(a := v)\<rparr>\<rparr>"

definition set_mat :: "nat \<Rightarrow> fl list list \<Rightarrow> ('k, 'pl, 'w) state \<Rightarrow> ('k, 'pl, 'w) state" where
  "set_mat a v st = st\<lparr>mem := (mem st)\<lparr>mat := (mat (mem st))(a := v)\<rparr>\<rparr>"

definition alloc_vec :: "fl list \<Rightarrow> ('k, 'pl, 'w) state \<Rightarrow> nat \<times> ('k, 'pl, 'w) state" where
  "alloc_vec v st = (let (a, h) = new_vec v (mem st) in (a, st\<lparr>mem := h\<rparr>))"

definition alloc_mat :: "fl list list \<Rightarrow> ('k, 'pl, 'w) state \<Rightarrow> nat \<times> ('k, 'pl, 'w) state" where
  "alloc_mat v st = (let (a, h) = new_mat v (mem st) in (a, st\<lparr>mem := h\<rparr>))"

subsection \<open>Before the loop (lines 95 to 122)\<close>

text \<open>\<^verbatim>\<open>self._kde = OptimizedKDE(p, self._pool)\<close>, at lines 99 and 162.\<close>

definition build_kde ::
  "('k, 'pl, 'w) env \<Rightarrow> fl list list \<Rightarrow> ('k, 'pl, 'w) state \<Rightarrow> ('k, 'pl, 'w) state" where
  "build_kde E q st =
     (let (k, w) = OptimizedKDE E q (pool (self st)) (world st)
      in st\<lparr>self := (self st)\<lparr>kde := Some k\<rparr>, world := w,
            built := built st @ [iterations (self st)]\<rparr>)"

text \<open>\<^verbatim>\<open>self._kde(q)\<close>; calling None raises TypeError.\<close>

definition eval_kde ::
  "('k, 'pl, 'w) env \<Rightarrow> fl list list \<Rightarrow> ('k, 'pl, 'w) state \<Rightarrow> error + fl list" where
  "eval_kde E q st = (case kde (self st) of None \<Rightarrow> Inl TypeError | Some k \<Rightarrow> Inr (kde_call E k q))"

text \<open>\<^verbatim>\<open>x = x0\<close>, then \<^verbatim>\<open>if x is None: x = v\<close> with \<open>v\<close> a new array.\<close>

definition resolve ::
  "nat option \<Rightarrow> fl list \<Rightarrow> ('k, 'pl, 'w) state \<Rightarrow> nat \<times> ('k, 'pl, 'w) state" where
  "resolve x0 v st = (case x0 of Some a \<Rightarrow> (a, st) | None \<Rightarrow> alloc_vec v st)"

definition prepare ::
  "('k, 'pl, 'w) env \<Rightarrow> nat \<Rightarrow> nat option \<Rightarrow> nat option \<Rightarrow> nat option \<Rightarrow> ('k, 'pl, 'w) state
     \<Rightarrow> (error \<times> ('k, 'pl, 'w) state) + (frame \<times> ('k, 'pl, 'w) state)" where
  "prepare E p0 lnprior0 lnlike0 lnq0 st =
     (let (pr, st1) = alloc_mat (mat (mem st) p0) st;
          st2 = (if kde (self st1) = None then build_kde E (mat (mem st1) pr) st1 else st1);
          (lpr, st3) = resolve lnprior0 (get_lnprior (self st2) (mat (mem st2) pr)) st2;
          (llr, st4) = resolve lnlike0 (get_lnlike (self st3) (mat (mem st3) pr)) st3
      in case lnq0 of
           Some a \<Rightarrow>
             Inr (\<lparr>p_ref = pr, lnprior_ref = lpr, lnlike_ref = llr, lnq_ref = a\<rparr>, st4)
         | None \<Rightarrow>
             (case eval_kde E (mat (mem st4) pr) st4 of
                Inl e \<Rightarrow> Inl (e, st4)
              | Inr v \<Rightarrow>
                  (let (a, st5) = alloc_vec v st4
                   in Inr (\<lparr>p_ref = pr, lnprior_ref = lpr, lnlike_ref = llr, lnq_ref = a\<rparr>, st5))))"

text \<open>Lines 115 to 122: \<open>k\<close> slots of zeros are appended to each of the four histories.\<close>

definition grow :: "nat \<Rightarrow> ('k, 'pl, 'w) state \<Rightarrow> ('k, 'pl, 'w) state" where
  "grow k st =
     (let s = self st; n = nwalkers s
      in st\<lparr>self := s\<lparr>chain := chain s @ replicate k (replicate n (replicate (dim' s) (Fin 0))),
                      lnpost := lnpost s @ replicate k (replicate n (Fin 0)),
                      lnprop := lnprop s @ replicate k (replicate n (Fin 0)),
                      accepted := accepted s @ replicate k (replicate n (Fin 0))\<rparr>\<rparr>)"

subsection \<open>One pass of the loop (lines 125 to 163)\<close>

definition propose ::
  "('k, 'pl, 'w) env \<Rightarrow> ('k, 'pl, 'w) state
     \<Rightarrow> (error \<times> ('k, 'pl, 'w) state) + (cand \<times> ('k, 'pl, 'w) state)" where
  "propose E st =
     (case kde (self st) of
        None \<Rightarrow> Inl (AttributeError, st)
      | Some k \<Rightarrow>
          (let (q, w) = kde_draw E k (nwalkers (self st)) (world st)
           in Inr (\<lparr>p_p = q, lnprior_p = get_lnprior (self st) q,
                    lnlike_p = get_lnlike (self st) q, lnq_p = kde_call E k q\<rparr>,
                   st\<lparr>world := w\<rparr>)))"

definition ratio :: "frame \<Rightarrow> cand \<Rightarrow> ('k, 'pl, 'w) state \<Rightarrow> error + fl list" where
  "ratio fr c st =
     ln_mh_ratio (lnprior_p c) (lnlike_p c)
       (vec (mem st) (lnprior_ref fr)) (vec (mem st) (lnlike_ref fr))
       (vec (mem st) (lnq_ref fr)) (lnq_p c)"

text \<open>\<^verbatim>\<open>np.random.rand(n)\<close>: \<open>n\<close> variates, one after the other.\<close>

primrec rand :: "('k, 'pl, 'w) env \<Rightarrow> nat \<Rightarrow> 'w \<Rightarrow> fl list \<times> 'w" where
  "rand E 0 w = ([], w)"
| "rand E (Suc n) w =
     (let (u, w1) = random_sample E w; (us, w2) = rand E n w1 in (u # us, w2))"

text \<open>Lines 138 to 143.\<close>

definition accept :: "('k, 'pl, 'w) env \<Rightarrow> fl list \<Rightarrow> 'w \<Rightarrow> (error + bool list) \<times> 'w" where
  "accept E r w =
     (let acc = map (\<lambda>x. fl_gt x (Fin 0)) r;
          worse = map Not acc;
          nworse = count_true worse;
          (us, w') = rand E nworse w
      in (bindE (masked_select worse r) (\<lambda>sel.
          bindE (np_gt sel (map fl_log us)) (\<lambda>vs.
          masked_assign worse acc vs)), w'))"

text \<open>\<^verbatim>\<open>dst[acc] = src[acc]\<close> on a stored array.\<close>

definition masked_copy :: "bool list \<Rightarrow> 'a list \<Rightarrow> 'a list \<Rightarrow> error + 'a list" where
  "masked_copy acc dst src = bindE (masked_select acc src) (masked_assign acc dst)"

definition assign_vec ::
  "nat \<Rightarrow> bool list \<Rightarrow> fl list \<Rightarrow> ('k, 'pl, 'w) state
     \<Rightarrow> (error \<times> ('k, 'pl, 'w) state) + ('k, 'pl, 'w) state" where
  "assign_vec a acc src st =
     (case masked_copy acc (vec (mem st) a) src of
        Inl e \<Rightarrow> Inl (e, st) | Inr v \<Rightarrow> Inr (set_vec a v st))"

definition assign_mat ::
  "nat \<Rightarrow> bool list \<Rightarrow> fl list list \<Rightarrow> ('k, 'pl, 'w) state
     \<Rightarrow> (error \<times> ('k, 'pl, 'w) state) + ('k, 'pl, 'w) state" where
  "assign_mat a acc src st =
     (case masked_copy acc (mat (mem st) a) src of
        Inl e \<Rightarrow> Inl (e, st) | Inr v \<Rightarrow> Inr (set_mat a v st))"

text \<open>Lines 146 to 150.\<close>

definition update ::
  "frame \<Rightarrow> bool list \<Rightarrow> cand \<Rightarrow> ('k, 'pl, 'w) state
     \<Rightarrow> (error \<times> ('k, 'pl, 'w) state) + ('k, 'pl, 'w) state" where
  "update fr acc c st =
     (if True \<in> set acc then
        bindE (assign_mat (p_ref fr) acc (p_p c) st) (\<lambda>st1.
        bindE (assign_vec (lnprior_ref fr) acc (lnprior_p c) st1) (\<lambda>st2.
        bindE (assign_vec (lnlike_ref fr) acc (lnlike_p c) st2) (\<lambda>st3.
        assign_vec (lnq_ref fr) acc (lnq_p c) st3)))
      else Inr st)"

text \<open>\<^verbatim>\<open>a[i, :] = xs\<close> (and \<^verbatim>\<open>a[i, :, :] = xs\<close>) where each slot of \<open>a\<close> has \<open>n\<close> rows.\<close>

definition store_row :: "nat \<Rightarrow> nat \<Rightarrow> 'a list \<Rightarrow> 'a list list \<Rightarrow> error + 'a list list" where
  "store_row n i xs a =
     (if i < length a then bindE (broadcast_to n xs) (\<lambda>row. Inr (a[i := row]))
      else Inl IndexError)"

text \<open>Lines 153 to 156.\<close>

definition store_step ::
  "frame \<Rightarrow> bool list \<Rightarrow> ('k, 'pl, 'w) state
     \<Rightarrow> (error \<times> ('k, 'pl, 'w) state) + ('k, 'pl, 'w) state" where
  "store_step fr acc st =
     (let h = mem st; it = iterations (self st); n = nwalkers (self st)
      in case store_row n it (mat h (p_ref fr)) (chain (self st)) of
           Inl e \<Rightarrow> Inl (e, st)
         | Inr ch \<Rightarrow>
        (let st1 = st\<lparr>self := (self st)\<lparr>chain := ch\<rparr>\<rparr>
         in case bindE (np_add (vec h (lnprior_ref fr)) (vec h (lnlike_ref fr)))
                   (\<lambda>v. store_row n it v (lnpost (self st1))) of
              Inl e \<Rightarrow> Inl (e, st1)
            | Inr lp \<Rightarrow>
        (let st2 = st1\<lparr>self := (self st1)\<lparr>lnpost := lp\<rparr>\<rparr>
         in case store_row n it (vec h (lnq_ref fr)) (lnprop (self st2)) of
              Inl e \<Rightarrow> Inl (e, st2)
            | Inr lq \<Rightarrow>
        (let st3 = st2\<lparr>self := (self st2)\<lparr>lnprop := lq\<rparr>\<rparr>
         in case store_row n it (map fl_of_bool acc) (accepted (self st3)) of
              Inl e \<Rightarrow> Inl (e, st3)
            | Inr ac \<Rightarrow> Inr (st3\<lparr>self := (self st3)\<lparr>accepted := ac\<rparr>\<rparr>)))))"

text \<open>Line 158.\<close>

definition increment :: "('k, 'pl, 'w) state \<Rightarrow> ('k, 'pl, 'w) state" where
  "increment st = st\<lparr>self := (self st)\<lparr>iterations := Suc (iterations (self st))\<rparr>\<rparr>"

text \<open>A step: lines 125 to 158, from the draw to the increment of the counter.\<close>

definition step ::
  "('k, 'pl, 'w) env \<Rightarrow> frame \<Rightarrow> ('k, 'pl, 'w) state
     \<Rightarrow> (error \<times> ('k, 'pl, 'w) state) + ('k, 'pl, 'w) state" where
  "step E fr st =
     bindE (propose E st) (\<lambda>(c, st1).
       case ratio fr c st1 of
         Inl e \<Rightarrow> Inl (e, st1)
       | Inr r \<Rightarrow>
           (let (a, w) = accept E r (world st1); st2 = st1\<lparr>world := w\<rparr>
            in case a of
                 Inl e \<Rightarrow> Inl (e, st2)
               | Inr acc \<Rightarrow>
                   bindE (update fr acc c st2) (\<lambda>st3.
                   bindE (store_step fr acc st3) (\<lambda>st4.
                   Inr (increment st4)))))"

text \<open>
  Lines 160 to 163, after the step. \<open>m\<close> is \<^verbatim>\<open>update_interval\<close>; Python's \<^verbatim>\<open>%\<close> raises
  on a zero divisor and otherwise agrees with \<open>mod\<close> on the integers.
\<close>

definition refresh ::
  "('k, 'pl, 'w) env \<Rightarrow> int \<Rightarrow> frame \<Rightarrow> ('k, 'pl, 'w) state
     \<Rightarrow> (error \<times> ('k, 'pl, 'w) state) + (frame \<times> ('k, 'pl, 'w) state)" where
  "refresh E m fr st =
     (if m = 0 then Inl (ZeroDivisionError, st)
      else if int (iterations (self st)) mod m = 0 then
        (let st1 = build_kde E (mat (mem st) (p_ref fr)) st
         in case eval_kde E (mat (mem st1) (p_ref fr)) st1 of
              Inl e \<Rightarrow> Inl (e, st1)
            | Inr v \<Rightarrow> (let (a, st2) = alloc_vec v st1 in Inr (fr\<lparr>lnq_ref := a\<rparr>, st2)))
      else Inr (fr, st))"

definition body ::
  "('k, 'pl, 'w) env \<Rightarrow> int \<Rightarrow> frame \<Rightarrow> ('k, 'pl, 'w) state
     \<Rightarrow> (error \<times> ('k, 'pl, 'w) state) + (frame \<times> ('k, 'pl, 'w) state)" where
  "body E m fr st = bindE (step E fr st) (refresh E m fr)"

text \<open>\<^verbatim>\<open>for i in xrange(int(iterations))\<close>: the body, \<open>k\<close> times, stopping at the first error.\<close>

fun loop ::
  "('k, 'pl, 'w) env \<Rightarrow> int \<Rightarrow> nat \<Rightarrow> frame \<Rightarrow> ('k, 'pl, 'w) state
     \<Rightarrow> (error \<times> ('k, 'pl, 'w) state) + (frame \<times> ('k, 'pl, 'w) state)" where
  "loop E m 0 fr st = Inr (fr, st)"
| "loop E m (Suc k) fr st = bindE (body E m fr st) (\<lambda>(fr', st'). loop E m k fr' st')"

subsection \<open>\<^verbatim>\<open>Sampler.sample\<close>\<close>

text \<open>
  \<^verbatim>\<open>sample(p0, lnprior0, lnlike0, lnq0, iterations, update_interval)\<close>. The arrays are
  passed by reference, an absent optional array is \<open>None\<close>. A negative \<^verbatim>\<open>iterations\<close>
  makes \<^verbatim>\<open>np.zeros\<close> raise at line 116. The result is the frame: the four arrays
  returned at line 165.
\<close>

definition sample ::
  "('k, 'pl, 'w) env \<Rightarrow> nat \<Rightarrow> nat option \<Rightarrow> nat option \<Rightarrow> nat option \<Rightarrow> int \<Rightarrow> int
     \<Rightarrow> ('k, 'pl, 'w) state
     \<Rightarrow> (error \<times> ('k, 'pl, 'w) state) + (frame \<times> ('k, 'pl, 'w) state)" where
  "sample E p0 lnprior0 lnlike0 lnq0 niter m st =
     bindE (prepare E p0 lnprior0 lnlike0 lnq0 st) (\<lambda>(fr, st1).
       if niter < 0 then Inl (ValueError, st1)
       else loop E m (nat niter) fr (grow (nat niter) st1))"

subsection \<open>Vocabulary for the statements\<close>

text \<open>
  A walker is worse when its ratio is not greater than zero (a NaN ratio included).
  The worse walkers share the variates of the one call of \<^verbatim>\<open>np.random.rand\<close> in the
  order of their indices: \<open>variate_index r i\<close> is the position of walker \<open>i\<close>'s variate.
\<close>

definition is_worse :: "fl \<Rightarrow> bool" where
  "is_worse x = (\<not> fl_gt x (Fin 0))"

definition variate_index :: "fl list \<Rightarrow> nat \<Rightarrow> nat" where
  "variate_index r i = length (filter is_worse (take i r))"


text \<open>
  The values that the counter takes in the \<open>k\<close> passes after it stood at \<open>c\<close> and that
  are multiples of the update interval \<open>m\<close>, in order.
\<close>

definition rebuild_counts :: "int \<Rightarrow> nat \<Rightarrow> nat \<Rightarrow> nat list" where
  "rebuild_counts m c k = filter (\<lambda>n. int n mod m = 0) [Suc c ..< Suc (c + k)]"

text \<open>
  A call that was asked for \<open>k\<close> iterations, observed when \<open>j\<close> passes of its loop are
  done; with \<open>j = k\<close> this is the whole call.
\<close>

definition run_upto ::
  "('k, 'pl, 'w) env \<Rightarrow> nat \<Rightarrow> nat option \<Rightarrow> nat option \<Rightarrow> nat option \<Rightarrow> nat \<Rightarrow> int \<Rightarrow> nat
     \<Rightarrow> ('k, 'pl, 'w) state
     \<Rightarrow> (error \<times> ('k, 'pl, 'w) state) + (frame \<times> ('k, 'pl, 'w) state)" where
  "run_upto E p0 lnprior0 lnlike0 lnq0 k m j st =
     bindE (prepare E p0 lnprior0 lnlike0 lnq0 st) (\<lambda>(fr, st1). loop E m j fr (grow k st1))"

subsection \<open>Worked inputs\<close>

text \<open>
  A sampler with two walkers in one dimension. The prior is the coordinate itself on
  the non-negative half line and \<open>-inf\<close> outside, the likelihood is flat. The stand-in
  for the proposal numbers its instances and has constant density. The caller holds a
  position array at address 0 and two one-dimensional arrays, one of three entries at
  address 0 and one of two entries at address 1.
\<close>

definition ex_lnprior :: "fl list list \<Rightarrow> fl list" where
  "ex_lnprior = map (\<lambda>row. case row of Fin x # _ \<Rightarrow> if x < 0 then NInf else Fin x | _ \<Rightarrow> NaN)"

definition ex_lnlike :: "fl list list \<Rightarrow> fl list" where
  "ex_lnlike = map (\<lambda>row. Fin 0)"

definition ex_env :: "(nat, unit, nat) env" where
  "ex_env = \<lparr>OptimizedKDE = (\<lambda>q pl w. (w, Suc w)),
             kde_call = (\<lambda>k. map (\<lambda>row. Fin (real k))),
             kde_draw = (\<lambda>k n w. (if n = 2 then [[Fin 1], [Fin (- 1)]] else replicate n [Fin 1], Suc w)),
             random_sample = (\<lambda>w. (Fin 0, Suc w))\<rparr>"

definition ex_sampler :: "(nat, unit) sampler" where
  "ex_sampler = init 2 1 ex_lnprior ex_lnlike None"

definition ex_store :: store where
  "ex_store = \<lparr>vec = (\<lambda>a. if a = 0 then [Fin 5, Fin 5, Fin 5] else if a = 1 then [Fin 7, NaN]
                          else if a = 2 then [Fin 0, Fin 2] else if a = 3 then [Fin 0, Fin 0] else []),
               mat = (\<lambda>a. if a = 0 then [[Fin 0], [Fin 2]] else []),
               nxt = 4\<rparr>"

definition ex_state :: "(nat, unit, nat) state" where
  "ex_state = \<lparr>self = ex_sampler, mem = ex_store, world = 0, built = []\<rparr>"

text \<open>
  The call \<^verbatim>\<open>sample(p0, lnprior0, lnlike0, lnq0, iterations=1)\<close> on the new sampler, with
  the arrays at addresses 0, 2, 3 and 1: \<open>ex_running\<close> is the state when the loop is
  entered, \<open>ex_frame\<close> the local names, \<open>ex_cand\<close> what the first step computes at the
  candidates, \<open>ex_stepped\<close> the state after the first step, \<open>ex_refreshed\<close> the state
  after a refresh that follows it, \<open>ex_midway\<close> the state after the first step when
  two iterations were asked for, \<open>ex_failed\<close> the state in which the call with the
  three-entry array in the place of \<^verbatim>\<open>lnprior0\<close> raises.
\<close>

definition ex_running :: "(nat, unit, nat) state" where
  "ex_running = \<lparr>self = ex_sampler\<lparr>kde := Some 0, chain := [[[Fin 0], [Fin 0]]], lnpost := [[Fin 0, Fin 0]],
                     lnprop := [[Fin 0, Fin 0]], accepted := [[Fin 0, Fin 0]]\<rparr>,
                 mem = ex_store\<lparr>mat := (mat ex_store)(4 := [[Fin 0], [Fin 2]]), nxt := 5\<rparr>,
                 world = 1, built = [0]\<rparr>"

definition ex_frame :: frame where
  "ex_frame = \<lparr>p_ref = 4, lnprior_ref = 2, lnlike_ref = 3, lnq_ref = 1\<rparr>"

definition ex_cand :: cand where
  "ex_cand = \<lparr>p_p = [[Fin 1], [Fin (- 1)]], lnprior_p = [Fin 1, NInf], lnlike_p = [Fin 0, Fin 0],
              lnq_p = [Fin 0, Fin 0]\<rparr>"

definition ex_stepped :: "(nat, unit, nat) state" where
  "ex_stepped = \<lparr>self = ex_sampler\<lparr>iterations := 1, kde := Some 0, chain := [[[Fin 1], [Fin 2]]],
                     lnpost := [[Fin 1, Fin 2]], lnprop := [[Fin 0, NaN]],
                     accepted := [[Fin 1, Fin 0]]\<rparr>,
                 mem = ex_store\<lparr>vec := (vec ex_store)(1 := [Fin 0, NaN], 2 := [Fin 1, Fin 2]),
                                mat := (mat ex_store)(4 := [[Fin 1], [Fin 2]]), nxt := 5\<rparr>,
                 world = 3, built = [0]\<rparr>"

definition ex_refreshed :: "(nat, unit, nat) state" where
  "ex_refreshed = \<lparr>self = (self ex_stepped)\<lparr>kde := Some 3\<rparr>,
                   mem = (mem ex_stepped)\<lparr>vec := (vec (mem ex_stepped))(5 := [Fin 3, Fin 3]), nxt := 6\<rparr>,
                   world = 4, built = [0, 1]\<rparr>"



subsection \<open>Vocabulary for calls that raise\<close>




section \<open>Properties\<close>

subsection \<open>Auxiliary facts about the array operations\<close>

lemma bindE_Inl [simp]: "bindE (Inl e) f = Inl e"
  by (simp add: bindE_def)

lemma bindE_Inr [simp]: "bindE (Inr x) f = f x"
  by (simp add: bindE_def)

lemma bindE_eq_Inr: "bindE m f = Inr y \<longleftrightarrow> (\<exists>x. m = Inr x \<and> f x = Inr y)"
  by (cases m) simp_all



lemma broadcast2_same:
  "length xs = length ys \<Longrightarrow> broadcast2 f xs ys = Inr (map2 f xs ys)"
  by (simp add: broadcast2_def)


lemma length_compress: "length ms = length xs \<Longrightarrow> length (compress ms xs) = count_true ms"
  by (induction ms xs rule: compress.induct) (simp_all add: count_true_def)

lemma length_place [simp]: "length (place ms xs vs) = length xs"
  by (induction ms xs vs rule: place.induct) (simp_all split: list.splits)

lemma compress_nth:
  "length ms = length xs \<Longrightarrow> i < length xs \<Longrightarrow> ms ! i
     \<Longrightarrow> compress ms xs ! count_true (take i ms) = xs ! i"
proof (induction ms xs arbitrary: i rule: compress.induct)
  case (1 m ms x xs)
  then show ?case by (cases i) (simp_all add: count_true_def)
qed simp_all

lemma count_true_rank_less:
  "i < length ms \<Longrightarrow> ms ! i \<Longrightarrow> count_true (take i ms) < count_true ms"
proof (induction ms arbitrary: i)
  case (Cons m ms)
  then show ?case by (cases i) (simp_all add: count_true_def)
qed simp

lemma place_nth:
  "length ms = length xs \<Longrightarrow> length vs = count_true ms \<Longrightarrow> i < length xs
     \<Longrightarrow> place ms xs vs ! i = (if ms ! i then vs ! count_true (take i ms) else xs ! i)"
proof (induction ms arbitrary: xs vs i)
  case Nil
  then show ?case by simp
next
  case (Cons m ms)
  then obtain x xs' where xs: "xs = x # xs'" by (cases xs) auto
  show ?case
  proof (cases m)
    case True
    with Cons.prems obtain v vs' where vs: "vs = v # vs'"
      by (cases vs) (auto simp: count_true_def)
    have len: "length ms = length xs'" "length vs' = count_true ms"
      using Cons.prems True by (simp_all add: xs vs count_true_def)
    show ?thesis
    proof (cases i)
      case 0
      then show ?thesis by (simp add: xs vs True count_true_def)
    next
      case (Suc j)
      then have "j < length xs'" using Cons.prems by (simp add: xs)
      from Cons.IH [OF len this] show ?thesis
        by (simp add: xs vs True Suc count_true_def)
    qed
  next
    case False
    have len: "length ms = length xs'" "length vs = count_true ms"
      using Cons.prems False by (simp_all add: xs count_true_def)
    show ?thesis
    proof (cases i)
      case 0
      then show ?thesis by (simp add: xs False)
    next
      case (Suc j)
      then have "j < length xs'" using Cons.prems by (simp add: xs)
      from Cons.IH [OF len this] show ?thesis
        by (simp add: xs False Suc count_true_def)
    qed
  qed
qed

lemma length_rand [simp]: "length (fst (rand E n w)) = n"
  by (induction n arbitrary: w) (simp_all add: split_beta Let_def)

lemma count_true_map: "count_true (map f xs) = length (filter f xs)"
  by (simp add: count_true_def filter_map comp_def)

lemma accept_char:
  fixes E :: "('k, 'pl, 'w) env"
  shows "accept E r w =
    (Inr (map (\<lambda>i. fl_gt (r ! i) (Fin 0) \<or>
                   fl_gt (r ! i) (fl_log (fst (rand E (length (filter is_worse r)) w) ! variate_index r i)))
            [0..<length r]),
     snd (rand E (length (filter is_worse r)) w))"
proof -
  define acc0 where "acc0 = map (\<lambda>x. fl_gt x (Fin 0)) r"
  define worse where "worse = map Not acc0"
  define n where "n = length (filter is_worse r)"
  define us where "us = fst (rand E n w)"
  define sel where "sel = compress worse r"
  define vs where "vs = map2 fl_gt sel (map fl_log us)"
  have worse: "worse = map is_worse r"
    by (simp add: worse_def acc0_def is_worse_def)
  have cnt: "count_true worse = n"
    by (simp add: worse count_true_map n_def)
  have lw: "length worse = length r" by (simp add: worse)
  have ls: "length sel = n" by (simp add: sel_def length_compress lw cnt)
  have lu: "length us = n" by (simp add: us_def)
  have lv: "length vs = n" by (simp add: vs_def ls lu)
  have lwa: "length worse = length acc0" by (simp add: worse_def)
  have s1: "masked_select worse r = Inr sel"
    by (simp add: masked_select_def lw sel_def)
  have s2: "np_gt sel (map fl_log us) = Inr vs"
    by (simp add: np_gt_def broadcast2_same ls lu vs_def)
  have s3: "masked_assign worse acc0 vs = Inr (place worse acc0 vs)"
    by (simp add: masked_assign_def lv cnt lwa)
  have "accept E r w =
      (bindE (masked_select worse r) (\<lambda>sel. bindE (np_gt sel (map fl_log us)) (masked_assign worse acc0)),
       snd (rand E n w))"
    unfolding accept_def Let_def worse_def acc0_def us_def cnt [unfolded worse_def acc0_def, symmetric]
    by (simp only: split_beta)
  then have unfold: "accept E r w = (Inr (place worse acc0 vs), snd (rand E n w))"
    by (simp add: s1 s2 s3)
  have "place worse acc0 vs =
      map (\<lambda>i. fl_gt (r ! i) (Fin 0) \<or> fl_gt (r ! i) (fl_log (us ! variate_index r i))) [0..<length r]"
  proof (rule nth_equalityI)
    show "length (place worse acc0 vs) = length (map (\<lambda>i. fl_gt (r ! i) (Fin 0) \<or> fl_gt (r ! i) (fl_log (us ! variate_index r i))) [0..<length r])"
      by (simp add: acc0_def)
  next
    fix i assume "i < length (place worse acc0 vs)"
    then have i: "i < length r" by (simp add: acc0_def)
    have idx: "count_true (take i worse) = variate_index r i"
      by (simp add: worse variate_index_def count_true_map take_map)
    have pn: "place worse acc0 vs ! i = (if worse ! i then vs ! count_true (take i worse) else acc0 ! i)"
      using i by (intro place_nth) (simp_all add: lwa lv cnt lw [symmetric])
    show "place worse acc0 vs ! i =
        map (\<lambda>i. fl_gt (r ! i) (Fin 0) \<or> fl_gt (r ! i) (fl_log (us ! variate_index r i))) [0..<length r] ! i"
    proof (cases "worse ! i")
      case True
      then have nw: "\<not> fl_gt (r ! i) (Fin 0)" using i by (simp add: worse is_worse_def)
      have lt: "variate_index r i < n"
        using count_true_rank_less [of i worse] True i lw by (simp add: idx cnt)
      have "sel ! variate_index r i = r ! i"
        using compress_nth [of worse r i] True i lw by (simp add: sel_def idx)
      then have "vs ! variate_index r i = fl_gt (r ! i) (fl_log (us ! variate_index r i))"
        using lt by (simp add: vs_def ls lu)
      with pn True nw i show ?thesis by (simp add: idx)
    next
      case False
      then have "fl_gt (r ! i) (Fin 0)" using i by (simp add: worse is_worse_def)
      with pn False i show ?thesis by (simp add: acc0_def)
    qed
  qed
  with unfold show ?thesis by (simp add: us_def n_def)
qed

lemma variate_index_less:
  "i < length r \<Longrightarrow> is_worse (r ! i) \<Longrightarrow> variate_index r i < length (filter is_worse r)"
  using count_true_rank_less [of i "map is_worse r"]
  by (simp add: variate_index_def count_true_map take_map)

lemma variate_index_mono:
  assumes "i < j" "j < length r" "is_worse (r ! i)"
  shows "variate_index r i < variate_index r j"
proof -
  have "take j r = take i r @ (r ! i) # take (j - Suc i) (drop (Suc i) r)"
    using assms
    by (metis Cons_nth_drop_Suc less_trans take_add le_add_diff_inverse take_Suc_Cons Suc_leI add_Suc_right add_Suc)
  then show ?thesis using assms by (simp add: variate_index_def)
qed

lemma accept_region:
  "0 \<le> u \<Longrightarrow> fl_gt (Fin x) (fl_log (Fin u)) \<longleftrightarrow> u < exp x"
proof (cases "u = 0")
  case True
  then show ?thesis by simp
next
  case False
  assume "0 \<le> u"
  with False have "0 < u" by simp
  then have "ln u < x \<longleftrightarrow> u < exp x"
    by (metis exp_less_cancel_iff exp_ln)
  with \<open>0 < u\<close> show ?thesis by simp
qed

subsection \<open>The acceptance ratio\<close>


lemma ex_prepare:
  "prepare ex_env 0 (Some 2) (Some 3) (Some 1) ex_state = Inr (ex_frame, ex_running\<lparr>self := (self ex_running)\<lparr>chain := [], lnpost := [], lnprop := [], accepted := []\<rparr>\<rparr>)"
  by (simp add: prepare_def alloc_mat_def new_mat_def ex_state_def ex_store_def ex_sampler_def init_def
      build_kde_def ex_env_def resolve_def alloc_vec_def new_vec_def ex_lnprior_def ex_lnlike_def
      ex_frame_def ex_running_def fun_eq_iff)

lemma ex_propose: "propose ex_env ex_running = Inr (ex_cand, ex_running\<lparr>world := 2\<rparr>)"
  by (simp add: propose_def ex_running_def ex_env_def ex_sampler_def init_def ex_cand_def
      ex_lnprior_def ex_lnlike_def)


subsection \<open>The acceptance decision\<close>

text \<open>
  C2. \<^verbatim>\<open>np.random.rand\<close> is asked for as many variates as there are walkers whose ratio
  is not greater than zero, and for no more. A walker with ratio greater than zero is
  accepted. Any other walker \<open>i\<close> is accepted exactly if its ratio is greater than the
  logarithm of the variate at \<open>variate_index r i\<close>; two such walkers never share a
  variate. For a finite ratio \<open>x\<close> and a variate \<open>u \<ge> 0\<close> this is the event \<open>u < exp x\<close>,
  which a uniform variate on \<open>[0, 1)\<close> meets with probability \<open>exp x\<close> when \<open>x \<le> 0\<close>; the
  measure itself is outside this development.
\<close>

theorem accept_rule:
  fixes E :: "('k, 'pl, 'w) env"
  shows "\<exists>acc. accept E r w = (Inr acc, snd (rand E (length (filter is_worse r)) w))
      \<and> length acc = length r
      \<and> (\<forall>i<length r.
            (fl_gt (r ! i) (Fin 0) \<longrightarrow> acc ! i)
          \<and> (\<not> fl_gt (r ! i) (Fin 0) \<longrightarrow>
               variate_index r i < length (filter is_worse r)
             \<and> (acc ! i \<longleftrightarrow>
                  fl_gt (r ! i) (fl_log (fst (rand E (length (filter is_worse r)) w) ! variate_index r i)))
             \<and> (\<forall>j<length r. i < j \<longrightarrow> variate_index r i < variate_index r j)
             \<and> (\<forall>x u. r ! i = Fin x
                    \<and> fst (rand E (length (filter is_worse r)) w) ! variate_index r i = Fin u \<and> 0 \<le> u
                  \<longrightarrow> (acc ! i \<longleftrightarrow> u < exp x))))"
proof -
  let ?us = "fst (rand E (length (filter is_worse r)) w)"
  let ?acc = "map (\<lambda>i. fl_gt (r ! i) (Fin 0) \<or> fl_gt (r ! i) (fl_log (?us ! variate_index r i)))
                [0..<length r]"
  have a: "accept E r w = (Inr ?acc, snd (rand E (length (filter is_worse r)) w))"
    by (rule accept_char)
  have d: "\<forall>i<length r.
            (fl_gt (r ! i) (Fin 0) \<longrightarrow> ?acc ! i)
          \<and> (\<not> fl_gt (r ! i) (Fin 0) \<longrightarrow>
               variate_index r i < length (filter is_worse r)
             \<and> (?acc ! i \<longleftrightarrow> fl_gt (r ! i) (fl_log (?us ! variate_index r i)))
             \<and> (\<forall>j<length r. i < j \<longrightarrow> variate_index r i < variate_index r j)
             \<and> (\<forall>x u. r ! i = Fin x \<and> ?us ! variate_index r i = Fin u \<and> 0 \<le> u
                  \<longrightarrow> (?acc ! i \<longleftrightarrow> u < exp x)))"
  proof (intro allI impI conjI)
    fix i assume i: "i < length r" and "fl_gt (r ! i) (Fin 0)"
    then show "?acc ! i" by simp
  next
    fix i assume i: "i < length r" and w: "\<not> fl_gt (r ! i) (Fin 0)"
    then show "variate_index r i < length (filter is_worse r)"
      by (simp add: variate_index_less is_worse_def)
  next
    fix i assume i: "i < length r" and w: "\<not> fl_gt (r ! i) (Fin 0)"
    then show "?acc ! i \<longleftrightarrow> fl_gt (r ! i) (fl_log (?us ! variate_index r i))" by simp
  next
    fix i j assume "i < length r" "\<not> fl_gt (r ! i) (Fin 0)" "j < length r" "i < j"
    then show "variate_index r i < variate_index r j"
      by (simp add: variate_index_mono is_worse_def)
  next
    fix i x u assume i: "i < length r" and w: "\<not> fl_gt (r ! i) (Fin 0)"
      and h: "r ! i = Fin x \<and> ?us ! variate_index r i = Fin u \<and> 0 \<le> u"
    then show "?acc ! i \<longleftrightarrow> u < exp x"
      using accept_region [of u x] by simp
  qed
  have l: "length ?acc = length r" by simp
  show ?thesis
    by (rule exI [of _ ?acc], intro conjI, rule a, rule l, rule d)
qed

lemma ex_rand3: "rand ex_env 3 w = ([Fin 0, Fin 0, Fin 0], Suc (Suc (Suc w)))"
  by (simp add: numeral_3_eq_3 ex_env_def)

theorem accept_rule_witness:
  "accept ex_env [Fin 1, NaN, Fin (- 1), NInf] 0 = (Inr [True, False, True, False], 3)"
proof -
  let ?r = "[Fin 1, NaN, Fin (- 1), NInf]"
  have n: "length (filter is_worse ?r) = 3" by (simp add: is_worse_def)
  have vi: "variate_index ?r 1 = 0" "variate_index ?r 2 = 1" "variate_index ?r 3 = 2"
    by (simp_all add: variate_index_def is_worse_def numeral_2_eq_2 numeral_3_eq_3)
  from accept_rule [of ex_env ?r 0] obtain acc where
    a: "accept ex_env ?r 0 = (Inr acc, snd (rand ex_env 3 0))" and l: "length acc = 4"
    and d: "\<forall>i<4. (fl_gt (?r ! i) (Fin 0) \<longrightarrow> acc ! i)
          \<and> (\<not> fl_gt (?r ! i) (Fin 0) \<longrightarrow>
               (acc ! i \<longleftrightarrow> fl_gt (?r ! i) (fl_log (fst (rand ex_env 3 0) ! variate_index ?r i))))"
    unfolding n by auto
  from d have "acc ! 0" by auto
  moreover from d have "\<not> acc ! 1" by (auto simp: vi ex_rand3)
  moreover from d have "acc ! 2" by (auto simp: vi ex_rand3)
  moreover from d have "\<not> acc ! 3" by (auto simp: vi ex_rand3)
  ultimately have "acc = [True, False, True, False]"
    using l by (simp add: list_eq_iff_nth_eq less_Suc_eq numeral_2_eq_2 numeral_3_eq_3 eval_nat_numeral)
  with a show ?thesis by (simp add: ex_rand3)
qed

subsection \<open>Effects of the state operations\<close>

lemma set_vec_simps [simp]:
  "self (set_vec a v st) = self st" "world (set_vec a v st) = world st"
  "built (set_vec a v st) = built st" "nxt (mem (set_vec a v st)) = nxt (mem st)"
  "mat (mem (set_vec a v st)) = mat (mem st)"
  "vec (mem (set_vec a v st)) = (vec (mem st))(a := v)"
  by (simp_all add: set_vec_def)

lemma set_mat_simps [simp]:
  "self (set_mat a v st) = self st" "world (set_mat a v st) = world st"
  "built (set_mat a v st) = built st" "nxt (mem (set_mat a v st)) = nxt (mem st)"
  "vec (mem (set_mat a v st)) = vec (mem st)"
  "mat (mem (set_mat a v st)) = (mat (mem st))(a := v)"
  by (simp_all add: set_mat_def)

lemma alloc_vec_simps [simp]:
  "fst (alloc_vec v st) = nxt (mem st)"
  "self (snd (alloc_vec v st)) = self st" "world (snd (alloc_vec v st)) = world st"
  "built (snd (alloc_vec v st)) = built st" "nxt (mem (snd (alloc_vec v st))) = Suc (nxt (mem st))"
  "mat (mem (snd (alloc_vec v st))) = mat (mem st)"
  "vec (mem (snd (alloc_vec v st))) = (vec (mem st))(nxt (mem st) := v)"
  by (simp_all add: alloc_vec_def new_vec_def)

lemma alloc_mat_simps [simp]:
  "fst (alloc_mat v st) = nxt (mem st)"
  "self (snd (alloc_mat v st)) = self st" "world (snd (alloc_mat v st)) = world st"
  "built (snd (alloc_mat v st)) = built st" "nxt (mem (snd (alloc_mat v st))) = Suc (nxt (mem st))"
  "vec (mem (snd (alloc_mat v st))) = vec (mem st)"
  "mat (mem (snd (alloc_mat v st))) = (mat (mem st))(nxt (mem st) := v)"
  by (simp_all add: alloc_mat_def new_mat_def)

lemma build_kde_simps [simp]:
  "mem (build_kde E q st) = mem st"
  "built (build_kde E q st) = built st @ [iterations (self st)]"
  "world (build_kde E q st) = snd (OptimizedKDE E q (pool (self st)) (world st))"
  "self (build_kde E q st) = (self st)\<lparr>kde := Some (fst (OptimizedKDE E q (pool (self st)) (world st)))\<rparr>"
  by (simp_all add: build_kde_def split_beta)

lemma increment_simps [simp]:
  "mem (increment st) = mem st" "built (increment st) = built st" "world (increment st) = world st"
  "self (increment st) = (self st)\<lparr>iterations := Suc (iterations (self st))\<rparr>"
  by (simp_all add: increment_def)

lemma grow_simps [simp]:
  "mem (grow k st) = mem st" "built (grow k st) = built st" "world (grow k st) = world st"
  "iterations (self (grow k st)) = iterations (self st)" "kde (self (grow k st)) = kde (self st)"
  "nwalkers (self (grow k st)) = nwalkers (self st)" "pool (self (grow k st)) = pool (self st)"
  "dim' (self (grow k st)) = dim' (self st)"
  "get_lnprior (self (grow k st)) = get_lnprior (self st)"
  "get_lnlike (self (grow k st)) = get_lnlike (self st)"
  "chain (self (grow k st)) =
     chain (self st) @ replicate k (replicate (nwalkers (self st)) (replicate (dim' (self st)) (Fin 0)))"
  "lnpost (self (grow k st)) = lnpost (self st) @ replicate k (replicate (nwalkers (self st)) (Fin 0))"
  "lnprop (self (grow k st)) = lnprop (self st) @ replicate k (replicate (nwalkers (self st)) (Fin 0))"
  "accepted (self (grow k st)) = accepted (self st) @ replicate k (replicate (nwalkers (self st)) (Fin 0))"
  by (simp_all add: grow_def Let_def)

subsection \<open>The masked update\<close>

lemma masked_copy_Inr:
  assumes "masked_copy acc dst src = Inr v"
  shows "length acc = length dst" and "length src = length dst" and "length v = length dst"
    and "i < length dst \<Longrightarrow> v ! i = (if acc ! i then src ! i else dst ! i)"
proof -
  from assms have l1: "length acc = length src" and l2: "length acc = length dst"
    by (auto simp: masked_copy_def masked_select_def masked_assign_def split: if_splits)
  from l1 have lc: "length (compress acc src) = count_true acc" by (rule length_compress)
  from assms l1 l2 lc have v: "v = place acc dst (compress acc src)"
    by (simp add: masked_copy_def masked_select_def masked_assign_def)
  show "length acc = length dst" by (rule l2)
  show "length src = length dst" using l1 l2 by simp
  show "length v = length dst" by (simp add: v)
  show "v ! i = (if acc ! i then src ! i else dst ! i)" if "i < length dst"
    using that place_nth [OF l2 lc that] compress_nth [OF l1, of i] l1 l2 by (simp add: v)
qed

lemma assign_vec_Inr:
  "assign_vec a acc src st = Inr st'
     \<Longrightarrow> \<exists>v. masked_copy acc (vec (mem st) a) src = Inr v \<and> st' = set_vec a v st"
  by (auto simp: assign_vec_def split: sum.splits)

lemma assign_mat_Inr:
  "assign_mat a acc src st = Inr st'
     \<Longrightarrow> \<exists>v. masked_copy acc (mat (mem st) a) src = Inr v \<and> st' = set_mat a v st"
  by (auto simp: assign_mat_def split: sum.splits)

lemma update_Inr:
  assumes "update fr acc c st = Inr st'"
  shows "self st' = self st" and "world st' = world st" and "built st' = built st"
    and "nxt (mem st') = nxt (mem st)"
    and "a \<noteq> p_ref fr \<Longrightarrow> mat (mem st') a = mat (mem st) a"
    and "a \<noteq> lnprior_ref fr \<Longrightarrow> a \<noteq> lnlike_ref fr \<Longrightarrow> a \<noteq> lnq_ref fr
           \<Longrightarrow> vec (mem st') a = vec (mem st) a"
proof -
  have "self st' = self st \<and> world st' = world st \<and> built st' = built st
      \<and> nxt (mem st') = nxt (mem st)
      \<and> (a \<noteq> p_ref fr \<longrightarrow> mat (mem st') a = mat (mem st) a)
      \<and> (a \<noteq> lnprior_ref fr \<longrightarrow> a \<noteq> lnlike_ref fr \<longrightarrow> a \<noteq> lnq_ref fr
           \<longrightarrow> vec (mem st') a = vec (mem st) a)"
  proof (cases "True \<in> set acc")
    case False
    with assms show ?thesis by (simp add: update_def)
  next
    case True
    with assms obtain st1 st2 st3 where
      "assign_mat (p_ref fr) acc (p_p c) st = Inr st1"
      "assign_vec (lnprior_ref fr) acc (lnprior_p c) st1 = Inr st2"
      "assign_vec (lnlike_ref fr) acc (lnlike_p c) st2 = Inr st3"
      "assign_vec (lnq_ref fr) acc (lnq_p c) st3 = Inr st'"
      by (auto simp: update_def bindE_eq_Inr)
    then show ?thesis
      by (auto dest!: assign_vec_Inr assign_mat_Inr)
  qed
  then show "self st' = self st" and "world st' = world st" and "built st' = built st"
    and "nxt (mem st') = nxt (mem st)"
    and "a \<noteq> p_ref fr \<Longrightarrow> mat (mem st') a = mat (mem st) a"
    and "a \<noteq> lnprior_ref fr \<Longrightarrow> a \<noteq> lnlike_ref fr \<Longrightarrow> a \<noteq> lnq_ref fr
           \<Longrightarrow> vec (mem st') a = vec (mem st) a"
    by simp_all
qed

lemma update_values:
  assumes "update fr acc c st = Inr st'"
    and "distinct [lnprior_ref fr, lnlike_ref fr, lnq_ref fr]"
    and "i < length acc"
  shows "mat (mem st') (p_ref fr) ! i = (if acc ! i then p_p c ! i else mat (mem st) (p_ref fr) ! i)"
    and "vec (mem st') (lnprior_ref fr) ! i
           = (if acc ! i then lnprior_p c ! i else vec (mem st) (lnprior_ref fr) ! i)"
    and "vec (mem st') (lnlike_ref fr) ! i
           = (if acc ! i then lnlike_p c ! i else vec (mem st) (lnlike_ref fr) ! i)"
    and "vec (mem st') (lnq_ref fr) ! i
           = (if acc ! i then lnq_p c ! i else vec (mem st) (lnq_ref fr) ! i)"
proof -
  have "mat (mem st') (p_ref fr) ! i = (if acc ! i then p_p c ! i else mat (mem st) (p_ref fr) ! i)
    \<and> vec (mem st') (lnprior_ref fr) ! i
           = (if acc ! i then lnprior_p c ! i else vec (mem st) (lnprior_ref fr) ! i)
    \<and> vec (mem st') (lnlike_ref fr) ! i
           = (if acc ! i then lnlike_p c ! i else vec (mem st) (lnlike_ref fr) ! i)
    \<and> vec (mem st') (lnq_ref fr) ! i
           = (if acc ! i then lnq_p c ! i else vec (mem st) (lnq_ref fr) ! i)"
  proof (cases "True \<in> set acc")
    case False
    then have "\<not> acc ! i" using assms(3) by (metis nth_mem)
    with assms False show ?thesis by (simp add: update_def)
  next
    case True
    with assms(1) obtain st1 st2 st3 where
      "assign_mat (p_ref fr) acc (p_p c) st = Inr st1"
      "assign_vec (lnprior_ref fr) acc (lnprior_p c) st1 = Inr st2"
      "assign_vec (lnlike_ref fr) acc (lnlike_p c) st2 = Inr st3"
      "assign_vec (lnq_ref fr) acc (lnq_p c) st3 = Inr st'"
      by (auto simp: update_def bindE_eq_Inr)
    then obtain v1 v2 v3 v4 where
      v1: "masked_copy acc (mat (mem st) (p_ref fr)) (p_p c) = Inr v1" and s1: "st1 = set_mat (p_ref fr) v1 st"
      and v2: "masked_copy acc (vec (mem st1) (lnprior_ref fr)) (lnprior_p c) = Inr v2"
      and s2: "st2 = set_vec (lnprior_ref fr) v2 st1"
      and v3: "masked_copy acc (vec (mem st2) (lnlike_ref fr)) (lnlike_p c) = Inr v3"
      and s3: "st3 = set_vec (lnlike_ref fr) v3 st2"
      and v4: "masked_copy acc (vec (mem st3) (lnq_ref fr)) (lnq_p c) = Inr v4"
      and s4: "st' = set_vec (lnq_ref fr) v4 st3"
      by (auto dest!: assign_vec_Inr assign_mat_Inr)
    from assms(2) have d: "lnprior_ref fr \<noteq> lnlike_ref fr" "lnprior_ref fr \<noteq> lnq_ref fr"
      "lnlike_ref fr \<noteq> lnq_ref fr" by auto
    have e2: "vec (mem st1) (lnprior_ref fr) = vec (mem st) (lnprior_ref fr)" by (simp add: s1)
    have e3: "vec (mem st2) (lnlike_ref fr) = vec (mem st) (lnlike_ref fr)"
      using d by (simp add: s1 s2)
    have e4: "vec (mem st3) (lnq_ref fr) = vec (mem st) (lnq_ref fr)"
      using d by (simp add: s1 s2 s3)
    have i1: "i < length (mat (mem st) (p_ref fr))" using masked_copy_Inr(1) [OF v1] assms(3) by simp
    have i2: "i < length (vec (mem st) (lnprior_ref fr))"
      using masked_copy_Inr(1) [OF v2] assms(3) by (simp add: e2)
    have i3: "i < length (vec (mem st) (lnlike_ref fr))"
      using masked_copy_Inr(1) [OF v3] assms(3) by (simp add: e3)
    have i4: "i < length (vec (mem st) (lnq_ref fr))"
      using masked_copy_Inr(1) [OF v4] assms(3) by (simp add: e4)
    have "mat (mem st') (p_ref fr) = v1" by (simp add: s1 s2 s3 s4)
    moreover have "vec (mem st') (lnprior_ref fr) = v2" using d by (simp add: s1 s2 s3 s4)
    moreover have "vec (mem st') (lnlike_ref fr) = v3" using d by (simp add: s1 s2 s3 s4)
    moreover have "vec (mem st') (lnq_ref fr) = v4" using d by (simp add: s1 s2 s3 s4)
    ultimately show ?thesis
      using masked_copy_Inr(4) [OF v1 i1] masked_copy_Inr(4) [OF v2 [unfolded e2] i2]
        masked_copy_Inr(4) [OF v3 [unfolded e3] i3] masked_copy_Inr(4) [OF v4 [unfolded e4] i4]
      by simp
  qed
  then show "mat (mem st') (p_ref fr) ! i = (if acc ! i then p_p c ! i else mat (mem st) (p_ref fr) ! i)"
    and "vec (mem st') (lnprior_ref fr) ! i
           = (if acc ! i then lnprior_p c ! i else vec (mem st) (lnprior_ref fr) ! i)"
    and "vec (mem st') (lnlike_ref fr) ! i
           = (if acc ! i then lnlike_p c ! i else vec (mem st) (lnlike_ref fr) ! i)"
    and "vec (mem st') (lnq_ref fr) ! i
           = (if acc ! i then lnq_p c ! i else vec (mem st) (lnq_ref fr) ! i)"
    by simp_all
qed

subsection \<open>Recording a step\<close>

lemma store_row_Inr:
  "store_row n i xs a = Inr a'
     \<Longrightarrow> i < length a \<and> (\<exists>row. broadcast_to n xs = Inr row \<and> a' = a[i := row])"
  by (auto simp: store_row_def bindE_eq_Inr split: if_splits)

lemma broadcast_to_same: "broadcast_to n xs = Inr row \<Longrightarrow> length xs = n \<Longrightarrow> row = xs"
  by (simp add: broadcast_to_def)

lemma store_step_Inr:
  assumes "store_step fr acc st = Inr st'"
  shows "\<exists>r1 r2 r3 r4 v.
      broadcast_to (nwalkers (self st)) (mat (mem st) (p_ref fr)) = Inr r1
    \<and> np_add (vec (mem st) (lnprior_ref fr)) (vec (mem st) (lnlike_ref fr)) = Inr v
    \<and> broadcast_to (nwalkers (self st)) v = Inr r2
    \<and> broadcast_to (nwalkers (self st)) (vec (mem st) (lnq_ref fr)) = Inr r3
    \<and> broadcast_to (nwalkers (self st)) (map fl_of_bool acc) = Inr r4
    \<and> iterations (self st) < length (chain (self st))
    \<and> iterations (self st) < length (lnpost (self st))
    \<and> iterations (self st) < length (lnprop (self st))
    \<and> iterations (self st) < length (accepted (self st))
    \<and> st' = st\<lparr>self := (self st)\<lparr>chain := (chain (self st))[iterations (self st) := r1],
                                 lnpost := (lnpost (self st))[iterations (self st) := r2],
                                 lnprop := (lnprop (self st))[iterations (self st) := r3],
                                 accepted := (accepted (self st))[iterations (self st) := r4]\<rparr>\<rparr>"
  using assms unfolding store_step_def Let_def
  by (auto simp: bindE_eq_Inr split: sum.splits dest!: store_row_Inr)

lemma step_Inr:
  assumes "step E fr st = Inr st'"
  shows "\<exists>c st1 r acc w st3 st4.
      propose E st = Inr (c, st1) \<and> ratio fr c st1 = Inr r
    \<and> accept E r (world st1) = (Inr acc, w)
    \<and> update fr acc c (st1\<lparr>world := w\<rparr>) = Inr st3
    \<and> store_step fr acc st3 = Inr st4 \<and> st' = increment st4"
proof -
  from assms obtain c st1 where p: "propose E st = Inr (c, st1)"
    and 1: "(case ratio fr c st1 of
         Inl e \<Rightarrow> Inl (e, st1)
       | Inr r \<Rightarrow>
           (let (a, w) = accept E r (world st1); st2 = st1\<lparr>world := w\<rparr>
            in case a of
                 Inl e \<Rightarrow> Inl (e, st2)
               | Inr acc \<Rightarrow>
                   bindE (update fr acc c st2) (\<lambda>st3.
                   bindE (store_step fr acc st3) (\<lambda>st4.
                   Inr (increment st4))))) = Inr st'"
    unfolding step_def by (auto simp: bindE_eq_Inr)
  from 1 obtain r where r: "ratio fr c st1 = Inr r"
    by (cases "ratio fr c st1") auto
  obtain a w where a: "accept E r (world st1) = (a, w)"
    by (cases "accept E r (world st1)") auto
  from 1 r a have 2: "(case a of
                 Inl e \<Rightarrow> Inl (e, st1\<lparr>world := w\<rparr>)
               | Inr acc \<Rightarrow>
                   bindE (update fr acc c (st1\<lparr>world := w\<rparr>)) (\<lambda>st3.
                   bindE (store_step fr acc st3) (\<lambda>st4.
                   Inr (increment st4)))) = Inr st'"
    by (simp add: Let_def)
  then obtain acc where acc: "a = Inr acc" by (cases a) auto
  from 2 acc obtain st3 st4 where "update fr acc c (st1\<lparr>world := w\<rparr>) = Inr st3"
    "store_step fr acc st3 = Inr st4" "st' = increment st4"
    by (auto simp: bindE_eq_Inr)
  with p r a acc show ?thesis by blast
qed

lemma propose_Inr:
  assumes "propose E st = Inr (c, st1)"
  shows "self st1 = self st" and "mem st1 = mem st" and "built st1 = built st"
    and "kde (self st) \<noteq> None"
  using assms by (auto simp: propose_def split_beta split: option.splits)

text \<open>What a step leaves alone, and what it records.\<close>

lemma step_frame:
  assumes "step E fr st = Inr st'"
  shows "iterations (self st') = Suc (iterations (self st))"
    and "kde (self st') = kde (self st)" and "nwalkers (self st') = nwalkers (self st)"
    and "dim' (self st') = dim' (self st)" and "pool (self st') = pool (self st)"
    and "get_lnprior (self st') = get_lnprior (self st)"
    and "get_lnlike (self st') = get_lnlike (self st)"
    and "built st' = built st" and "nxt (mem st') = nxt (mem st)"
    and "a \<noteq> p_ref fr \<Longrightarrow> mat (mem st') a = mat (mem st) a"
    and "a \<noteq> lnprior_ref fr \<Longrightarrow> a \<noteq> lnlike_ref fr \<Longrightarrow> a \<noteq> lnq_ref fr
           \<Longrightarrow> vec (mem st') a = vec (mem st) a"
proof -
  from step_Inr [OF assms] obtain c st1 r acc w st3 st4 where
    p: "propose E st = Inr (c, st1)" and u: "update fr acc c (st1\<lparr>world := w\<rparr>) = Inr st3"
    and s: "store_step fr acc st3 = Inr st4" and e: "st' = increment st4"
    by blast
  note pu = propose_Inr [OF p] update_Inr [OF u]
  from store_step_Inr [OF s] obtain r1 r2 r3 r4 where
   s4: "st4 = st3\<lparr>self := (self st3)\<lparr>chain := (chain (self st3))[iterations (self st3) := r1],
                                 lnpost := (lnpost (self st3))[iterations (self st3) := r2],
                                 lnprop := (lnprop (self st3))[iterations (self st3) := r3],
                                 accepted := (accepted (self st3))[iterations (self st3) := r4]\<rparr>\<rparr>"
    by blast
  show "iterations (self st') = Suc (iterations (self st))"
    and "kde (self st') = kde (self st)" and "nwalkers (self st') = nwalkers (self st)"
    and "dim' (self st') = dim' (self st)" and "pool (self st') = pool (self st)"
    and "get_lnprior (self st') = get_lnprior (self st)"
    and "get_lnlike (self st') = get_lnlike (self st)"
    and "built st' = built st" and "nxt (mem st') = nxt (mem st)"
    by (simp_all add: e s4 pu)
  show "mat (mem st') a = mat (mem st) a" if "a \<noteq> p_ref fr"
    using that pu(9) [of a] by (simp add: e s4 pu(2))
  show "vec (mem st') a = vec (mem st) a"
    if "a \<noteq> lnprior_ref fr" "a \<noteq> lnlike_ref fr" "a \<noteq> lnq_ref fr"
    using that pu(10) [of a] by (simp add: e s4 pu(2))
qed

lemma step_history:
  assumes "step E fr st = Inr st'"
  shows "length (chain (self st')) = length (chain (self st))"
    and "length (lnpost (self st')) = length (lnpost (self st))"
    and "length (lnprop (self st')) = length (lnprop (self st))"
    and "length (accepted (self st')) = length (accepted (self st))"
    and "iterations (self st) < length (chain (self st))"
    and "iterations (self st) < length (lnpost (self st))"
    and "iterations (self st) < length (lnprop (self st))"
    and "iterations (self st) < length (accepted (self st))"
    and "j \<noteq> iterations (self st) \<Longrightarrow> chain (self st') ! j = chain (self st) ! j"
    and "j \<noteq> iterations (self st) \<Longrightarrow> lnpost (self st') ! j = lnpost (self st) ! j"
    and "j \<noteq> iterations (self st) \<Longrightarrow> lnprop (self st') ! j = lnprop (self st) ! j"
    and "j \<noteq> iterations (self st) \<Longrightarrow> accepted (self st') ! j = accepted (self st) ! j"
proof -
  from step_Inr [OF assms] obtain c st1 r acc w st3 st4 where
    p: "propose E st = Inr (c, st1)" and u: "update fr acc c (st1\<lparr>world := w\<rparr>) = Inr st3"
    and s: "store_step fr acc st3 = Inr st4" and e: "st' = increment st4"
    by blast
  have s3: "self st3 = self st" using propose_Inr(1) [OF p] update_Inr(1) [OF u] by simp
  from store_step_Inr [OF s] obtain r1 r2 r3 r4 where
   lt: "iterations (self st3) < length (chain (self st3))"
       "iterations (self st3) < length (lnpost (self st3))"
       "iterations (self st3) < length (lnprop (self st3))"
       "iterations (self st3) < length (accepted (self st3))" and
   s4: "st4 = st3\<lparr>self := (self st3)\<lparr>chain := (chain (self st3))[iterations (self st3) := r1],
                                 lnpost := (lnpost (self st3))[iterations (self st3) := r2],
                                 lnprop := (lnprop (self st3))[iterations (self st3) := r3],
                                 accepted := (accepted (self st3))[iterations (self st3) := r4]\<rparr>\<rparr>"
    by blast
  show "length (chain (self st')) = length (chain (self st))"
    and "length (lnpost (self st')) = length (lnpost (self st))"
    and "length (lnprop (self st')) = length (lnprop (self st))"
    and "length (accepted (self st')) = length (accepted (self st))"
    by (simp_all add: e s4 s3)
  show "iterations (self st) < length (chain (self st))"
    and "iterations (self st) < length (lnpost (self st))"
    and "iterations (self st) < length (lnprop (self st))"
    and "iterations (self st) < length (accepted (self st))"
    using lt by (simp_all add: s3)
  show "chain (self st') ! j = chain (self st) ! j" if "j \<noteq> iterations (self st)"
    using that by (simp add: e s4 s3)
  show "lnpost (self st') ! j = lnpost (self st) ! j" if "j \<noteq> iterations (self st)"
    using that by (simp add: e s4 s3)
  show "lnprop (self st') ! j = lnprop (self st) ! j" if "j \<noteq> iterations (self st)"
    using that by (simp add: e s4 s3)
  show "accepted (self st') ! j = accepted (self st) ! j" if "j \<noteq> iterations (self st)"
    using that by (simp add: e s4 s3)
qed

text \<open>The values of one walker after a step, given the decision taken in it.\<close>

lemma step_walker:
  assumes p: "propose E st = Inr (c, st1)" and r: "ratio fr c st1 = Inr r"
    and a: "accept E r (world st1) = (Inr acc, w)"
    and s: "step E fr st = Inr st'"
    and d: "distinct [lnprior_ref fr, lnlike_ref fr, lnq_ref fr]"
    and n: "length acc = nwalkers (self st)" and i: "i < length acc"
  shows "accepted (self st') ! iterations (self st) ! i = fl_of_bool (acc ! i)"
    and "mat (mem st') (p_ref fr) ! i = (if acc ! i then p_p c ! i else mat (mem st) (p_ref fr) ! i)"
    and "vec (mem st') (lnprior_ref fr) ! i
           = (if acc ! i then lnprior_p c ! i else vec (mem st) (lnprior_ref fr) ! i)"
    and "vec (mem st') (lnlike_ref fr) ! i
           = (if acc ! i then lnlike_p c ! i else vec (mem st) (lnlike_ref fr) ! i)"
    and "vec (mem st') (lnq_ref fr) ! i
           = (if acc ! i then lnq_p c ! i else vec (mem st) (lnq_ref fr) ! i)"
proof -
  from step_Inr [OF s] p r a obtain st3 st4 where
    u: "update fr acc c (st1\<lparr>world := w\<rparr>) = Inr st3"
    and ss: "store_step fr acc st3 = Inr st4" and e: "st' = increment st4"
    by auto
  have s3: "self st3 = self st" using propose_Inr(1) [OF p] update_Inr(1) [OF u] by simp
  have m1: "mem (st1\<lparr>world := w\<rparr>) = mem st" using propose_Inr(2) [OF p] by simp
  from store_step_Inr [OF ss] obtain r1 r2 r3 r4 where
    b: "broadcast_to (nwalkers (self st3)) (map fl_of_bool acc) = Inr r4"
    and lt: "iterations (self st3) < length (accepted (self st3))"
    and s4: "st4 = st3\<lparr>self := (self st3)\<lparr>chain := (chain (self st3))[iterations (self st3) := r1],
                                 lnpost := (lnpost (self st3))[iterations (self st3) := r2],
                                 lnprop := (lnprop (self st3))[iterations (self st3) := r3],
                                 accepted := (accepted (self st3))[iterations (self st3) := r4]\<rparr>\<rparr>"
    by blast
  from b n have "r4 = map fl_of_bool acc" by (simp add: broadcast_to_def s3)
  with lt i show "accepted (self st') ! iterations (self st) ! i = fl_of_bool (acc ! i)"
    by (simp add: e s4 s3)
  have m: "mem st' = mem st3" by (simp add: e s4)
  show "mat (mem st') (p_ref fr) ! i = (if acc ! i then p_p c ! i else mat (mem st) (p_ref fr) ! i)"
    and "vec (mem st') (lnprior_ref fr) ! i
           = (if acc ! i then lnprior_p c ! i else vec (mem st) (lnprior_ref fr) ! i)"
    and "vec (mem st') (lnlike_ref fr) ! i
           = (if acc ! i then lnlike_p c ! i else vec (mem st) (lnlike_ref fr) ! i)"
    and "vec (mem st') (lnq_ref fr) ! i
           = (if acc ! i then lnq_p c ! i else vec (mem st) (lnq_ref fr) ! i)"
    using update_values [OF u d i] by (simp_all add: m m1)
qed

lemma ex_ratio: "ratio ex_frame ex_cand (ex_running\<lparr>world := 2\<rparr>) = Inr [Fin 8, NaN]"
  by (simp add: ratio_def ln_mh_ratio_def np_add_def np_sub_def broadcast2_def fl_sub_def
      ex_frame_def ex_cand_def ex_running_def ex_store_def)

lemma ex_accept: "accept ex_env [Fin 8, NaN] 2 = (Inr [True, False], 3)"
  by (simp add: accept_def count_true_def masked_select_def masked_assign_def np_gt_def
      broadcast2_def ex_env_def)

lemma ex_update:
  "update ex_frame [True, False] ex_cand (ex_running\<lparr>world := 3\<rparr>)
     = Inr (ex_running\<lparr>world := 3,
              mem := ex_store\<lparr>vec := (vec ex_store)(1 := [Fin 0, NaN], 2 := [Fin 1, Fin 2]),
                                mat := (mat ex_store)(4 := [[Fin 1], [Fin 2]]), nxt := 5\<rparr>\<rparr>)"
  by (simp add: update_def assign_mat_def assign_vec_def masked_copy_def masked_select_def
      masked_assign_def count_true_def set_mat_def set_vec_def
      ex_frame_def ex_cand_def ex_running_def ex_store_def fun_eq_iff)

lemma ex_step: "step ex_env ex_frame ex_running = Inr ex_stepped"
proof -
  let ?st3 = "ex_running\<lparr>world := 3,
              mem := ex_store\<lparr>vec := (vec ex_store)(1 := [Fin 0, NaN], 2 := [Fin 1, Fin 2]),
                                mat := (mat ex_store)(4 := [[Fin 1], [Fin 2]]), nxt := 5\<rparr>\<rparr>"
  have "step ex_env ex_frame ex_running =
      bindE (store_step ex_frame [True, False] ?st3) (\<lambda>st4. Inr (increment st4))"
    unfolding step_def by (simp add: ex_propose ex_ratio ex_accept ex_update)
  also have "\<dots> = Inr ex_stepped"
    by (simp add: store_step_def store_row_def
      broadcast_to_def np_add_def broadcast2_def increment_def fl_of_bool_def
      ex_frame_def ex_running_def ex_sampler_def init_def ex_stepped_def ex_store_def)
  finally show ?thesis .
qed



text \<open>
  C8. When the ratio of walker \<open>i\<close> is NaN, both comparisons are false (the one with
  zero, and the one with the logarithm of whatever variate), the walker is not
  accepted, its recorded flag is zero, and the masked update leaves its position row
  and its three scalars as they were before the step.
\<close>

theorem nan_ratio_rejected:
  assumes "propose E st = Inr (c, st1)" and "ratio fr c st1 = Inr r"
    and "accept E r (world st1) = (Inr acc, w)"
    and "step E fr st = Inr st'"
    and "distinct [lnprior_ref fr, lnlike_ref fr, lnq_ref fr]"
    and "length r = nwalkers (self st)" and "i < length r" and "r ! i = NaN"
  shows "\<not> fl_gt (r ! i) (Fin 0) \<and> (\<forall>u. \<not> fl_gt (r ! i) (fl_log u))
    \<and> \<not> acc ! i
    \<and> accepted (self st') ! iterations (self st) ! i = Fin 0
    \<and> mat (mem st') (p_ref fr) ! i = mat (mem st) (p_ref fr) ! i
    \<and> vec (mem st') (lnprior_ref fr) ! i = vec (mem st) (lnprior_ref fr) ! i
    \<and> vec (mem st') (lnlike_ref fr) ! i = vec (mem st) (lnlike_ref fr) ! i
    \<and> vec (mem st') (lnq_ref fr) ! i = vec (mem st) (lnq_ref fr) ! i"
proof -
  from assms(3) accept_char [of E r "world st1"]
  have acc: "acc = map (\<lambda>i. fl_gt (r ! i) (Fin 0) \<or>
                   fl_gt (r ! i) (fl_log (fst (rand E (length (filter is_worse r)) (world st1)) ! variate_index r i)))
            [0..<length r]"
    by simp
  then have l: "length acc = nwalkers (self st)" and i: "i < length acc"
    using assms(6,7) by simp_all
  from acc assms(7,8) have rej: "\<not> acc ! i" by simp
  from step_walker [OF assms(1-5) l i] rej assms(8) show ?thesis
    by (simp add: fl_of_bool_def)
qed

theorem nan_ratio_rejected_witness:
  "ratio ex_frame ex_cand (ex_running\<lparr>world := 2\<rparr>) = Inr [Fin 8, NaN]
   \<and> [Fin 8, NaN] ! 1 = NaN
   \<and> accept ex_env [Fin 8, NaN] 2 = (Inr [True, False], 3)
   \<and> step ex_env ex_frame ex_running = Inr ex_stepped
   \<and> accepted (self ex_stepped) ! 0 ! 1 = Fin 0
   \<and> mat (mem ex_stepped) 4 ! 1 = mat (mem ex_running) 4 ! 1
   \<and> vec (mem ex_stepped) 2 ! 1 = vec (mem ex_running) 2 ! 1
   \<and> vec (mem ex_stepped) 3 ! 1 = vec (mem ex_running) 3 ! 1
   \<and> vec (mem ex_stepped) 1 ! 1 = vec (mem ex_running) 1 ! 1"
proof -
  have a: "accept ex_env [Fin 8, NaN] (world (ex_running\<lparr>world := 2\<rparr>)) = (Inr [True, False], 3)"
    by (simp add: ex_accept)
  have d: "distinct [lnprior_ref ex_frame, lnlike_ref ex_frame, lnq_ref ex_frame]"
    by (simp add: ex_frame_def)
  have n: "length [Fin 8, NaN] = nwalkers (self ex_running)"
    by (simp add: ex_running_def ex_sampler_def init_def)
  have i: "1 < length [Fin 8, NaN]" and x: "[Fin 8, NaN] ! 1 = NaN" by simp_all
  have it: "iterations (self ex_running) = 0"
    by (simp_all add: ex_running_def ex_sampler_def init_def)
  from nan_ratio_rejected [OF ex_propose ex_ratio a ex_step d n i x] have
    "accepted (self ex_stepped) ! 0 ! 1 = Fin 0
   \<and> mat (mem ex_stepped) 4 ! 1 = mat (mem ex_running) 4 ! 1
   \<and> vec (mem ex_stepped) 2 ! 1 = vec (mem ex_running) 2 ! 1
   \<and> vec (mem ex_stepped) 3 ! 1 = vec (mem ex_running) 3 ! 1
   \<and> vec (mem ex_stepped) 1 ! 1 = vec (mem ex_running) 1 ! 1"
    by (simp add: ex_frame_def it)
  with ex_ratio ex_accept ex_step show ?thesis by simp
qed

subsection \<open>The refresh and the whole pass\<close>

lemma refresh_Inr:
  assumes "refresh E m fr st = Inr (fr', st')"
  shows "m \<noteq> 0"
    and "int (iterations (self st)) mod m \<noteq> 0 \<Longrightarrow> fr' = fr \<and> st' = st"
    and "int (iterations (self st)) mod m = 0 \<Longrightarrow>
           fr' = fr\<lparr>lnq_ref := nxt (mem st)\<rparr>
         \<and> st' = snd (alloc_vec
                   (kde_call E (fst (OptimizedKDE E (mat (mem st) (p_ref fr)) (pool (self st)) (world st)))
                      (mat (mem st) (p_ref fr)))
                   (build_kde E (mat (mem st) (p_ref fr)) st))"
proof -
  show m: "m \<noteq> 0" using assms by (cases "m = 0") (simp_all add: refresh_def)
  show "fr' = fr \<and> st' = st" if "int (iterations (self st)) mod m \<noteq> 0"
    using assms m that by (simp add: refresh_def)
  show "fr' = fr\<lparr>lnq_ref := nxt (mem st)\<rparr>
         \<and> st' = snd (alloc_vec
                   (kde_call E (fst (OptimizedKDE E (mat (mem st) (p_ref fr)) (pool (self st)) (world st)))
                      (mat (mem st) (p_ref fr)))
                   (build_kde E (mat (mem st) (p_ref fr)) st))"
    if "int (iterations (self st)) mod m = 0"
  proof -
    let ?st1 = "build_kde E (mat (mem st) (p_ref fr)) st"
    let ?v = "kde_call E (fst (OptimizedKDE E (mat (mem st) (p_ref fr)) (pool (self st)) (world st)))
                      (mat (mem st) (p_ref fr))"
    have e: "eval_kde E (mat (mem ?st1) (p_ref fr)) ?st1 = Inr ?v"
      by (simp add: eval_kde_def)
    have "refresh E m fr st = Inr (fr\<lparr>lnq_ref := fst (alloc_vec ?v ?st1)\<rparr>, snd (alloc_vec ?v ?st1))"
      unfolding refresh_def Let_def e using m that by (simp add: split_beta)
    with assms show ?thesis by simp
  qed
qed

lemma refresh_frame:
  assumes "refresh E m fr st = Inr (fr', st')"
  shows "self st' = (self st)\<lparr>kde := kde (self st')\<rparr>"
    and "p_ref fr' = p_ref fr" and "lnprior_ref fr' = lnprior_ref fr"
    and "lnlike_ref fr' = lnlike_ref fr"
    and "mat (mem st') = mat (mem st)"
    and "a \<noteq> nxt (mem st) \<Longrightarrow> vec (mem st') a = vec (mem st) a"
    and "built st' = built st @ (if int (iterations (self st)) mod m = 0 then [iterations (self st)] else [])"
    and "lnq_ref fr' = (if int (iterations (self st)) mod m = 0 then nxt (mem st) else lnq_ref fr)"
    and "nxt (mem st') = (if int (iterations (self st)) mod m = 0 then Suc (nxt (mem st)) else nxt (mem st))"
    and "kde (self st) \<noteq> None \<Longrightarrow> kde (self st') \<noteq> None"
proof -
  have "self st' = (self st)\<lparr>kde := kde (self st')\<rparr>
    \<and> p_ref fr' = p_ref fr \<and> lnprior_ref fr' = lnprior_ref fr \<and> lnlike_ref fr' = lnlike_ref fr
    \<and> mat (mem st') = mat (mem st)
    \<and> (a \<noteq> nxt (mem st) \<longrightarrow> vec (mem st') a = vec (mem st) a)
    \<and> built st' = built st @ (if int (iterations (self st)) mod m = 0 then [iterations (self st)] else [])
    \<and> lnq_ref fr' = (if int (iterations (self st)) mod m = 0 then nxt (mem st) else lnq_ref fr)
    \<and> nxt (mem st') = (if int (iterations (self st)) mod m = 0 then Suc (nxt (mem st)) else nxt (mem st))
    \<and> (kde (self st) \<noteq> None \<longrightarrow> kde (self st') \<noteq> None)"
  proof (cases "int (iterations (self st)) mod m = 0")
    case True
    note r = refresh_Inr(3) [OF assms True]
    from r have fr: "fr' = fr\<lparr>lnq_ref := nxt (mem st)\<rparr>" by (rule conjunct1)
    from r have "self st' = (self st)\<lparr>kde := Some (fst (OptimizedKDE E (mat (mem st) (p_ref fr)) (pool (self st)) (world st)))\<rparr>"
      and "mat (mem st') = mat (mem st)"
      and "vec (mem st') = (vec (mem st))(nxt (mem st) :=
              kde_call E (fst (OptimizedKDE E (mat (mem st) (p_ref fr)) (pool (self st)) (world st)))
                      (mat (mem st) (p_ref fr)))"
      and "built st' = built st @ [iterations (self st)]"
      and "nxt (mem st') = Suc (nxt (mem st))"
      by simp_all
    with True show ?thesis by (simp add: fr)
  next
    case False
    from refresh_Inr(2) [OF assms False] show ?thesis using False by simp
  qed
  then show "self st' = (self st)\<lparr>kde := kde (self st')\<rparr>"
    and "p_ref fr' = p_ref fr" and "lnprior_ref fr' = lnprior_ref fr"
    and "lnlike_ref fr' = lnlike_ref fr"
    and "mat (mem st') = mat (mem st)"
    and "a \<noteq> nxt (mem st) \<Longrightarrow> vec (mem st') a = vec (mem st) a"
    and "built st' = built st @ (if int (iterations (self st)) mod m = 0 then [iterations (self st)] else [])"
    and "lnq_ref fr' = (if int (iterations (self st)) mod m = 0 then nxt (mem st) else lnq_ref fr)"
    and "nxt (mem st') = (if int (iterations (self st)) mod m = 0 then Suc (nxt (mem st)) else nxt (mem st))"
    and "kde (self st) \<noteq> None \<Longrightarrow> kde (self st') \<noteq> None"
    by simp_all
qed

lemma body_Inr:
  "body E m fr st = Inr (fr', st')
     \<Longrightarrow> \<exists>st1. step E fr st = Inr st1 \<and> refresh E m fr st1 = Inr (fr', st')"
  by (simp add: body_def bindE_eq_Inr)

lemma rebuild_counts_0 [simp]: "rebuild_counts m c 0 = []"
  by (simp add: rebuild_counts_def)

lemma rebuild_counts_Suc:
  "rebuild_counts m c (Suc k) =
     (if int (Suc c) mod m = 0 then [Suc c] else []) @ rebuild_counts m (Suc c) k"
proof -
  have "[Suc c ..< Suc (c + Suc k)] = Suc c # [Suc (Suc c) ..< Suc (Suc c + k)]"
    by (simp add: upt_conv_Cons)
  then show ?thesis
    unfolding rebuild_counts_def by (simp del: upt_Suc)
qed

lemma body_effect:
  assumes "body E m fr st = Inr (fr', st')"
  shows "iterations (self st') = Suc (iterations (self st))"
    and "nwalkers (self st') = nwalkers (self st)" and "dim' (self st') = dim' (self st)"
    and "length (chain (self st')) = length (chain (self st))"
    and "length (lnpost (self st')) = length (lnpost (self st))"
    and "length (lnprop (self st')) = length (lnprop (self st))"
    and "length (accepted (self st')) = length (accepted (self st))"
    and "iterations (self st) < length (chain (self st))"
    and "built st' = built st @ (if int (Suc (iterations (self st))) mod m = 0
                                  then [Suc (iterations (self st))] else [])"
    and "p_ref fr' = p_ref fr" and "lnprior_ref fr' = lnprior_ref fr"
    and "lnlike_ref fr' = lnlike_ref fr"
    and "lnq_ref fr' = (if int (Suc (iterations (self st))) mod m = 0 then nxt (mem st) else lnq_ref fr)"
    and "nxt (mem st') = (if int (Suc (iterations (self st))) mod m = 0
                           then Suc (nxt (mem st)) else nxt (mem st))"
    and "a \<noteq> p_ref fr \<Longrightarrow> mat (mem st') a = mat (mem st) a"
    and "kde (self st') \<noteq> None"
proof -
  from body_Inr [OF assms] obtain st1 where s: "step E fr st = Inr st1"
    and r: "refresh E m fr st1 = Inr (fr', st')" by blast
  note sf = step_frame [OF s] and sh = step_history [OF s] and rf = refresh_frame [OF r]
  have k: "kde (self st) \<noteq> None"
    using step_Inr [OF s] propose_Inr(4) by blast
  have ss: "self st' = (self st1)\<lparr>kde := kde (self st')\<rparr>" by (rule rf(1))
  show "iterations (self st') = Suc (iterations (self st))"
    by (subst ss) (simp add: sf)
  show "nwalkers (self st') = nwalkers (self st)" by (subst ss) (simp add: sf)
  show "dim' (self st') = dim' (self st)" by (subst ss) (simp add: sf)
  show "length (chain (self st')) = length (chain (self st))" by (subst ss) (simp add: sh)
  show "length (lnpost (self st')) = length (lnpost (self st))" by (subst ss) (simp add: sh)
  show "length (lnprop (self st')) = length (lnprop (self st))" by (subst ss) (simp add: sh)
  show "length (accepted (self st')) = length (accepted (self st))" by (subst ss) (simp add: sh)
  show "iterations (self st) < length (chain (self st))" by (rule sh)
  show "built st' = built st @ (if int (Suc (iterations (self st))) mod m = 0
                                  then [Suc (iterations (self st))] else [])"
    using rf(7) by (simp add: sf)
  show "p_ref fr' = p_ref fr" "lnprior_ref fr' = lnprior_ref fr" "lnlike_ref fr' = lnlike_ref fr"
    by (rule rf)+
  show "lnq_ref fr' = (if int (Suc (iterations (self st))) mod m = 0 then nxt (mem st) else lnq_ref fr)"
    using rf(8) by (simp add: sf)
  show "nxt (mem st') = (if int (Suc (iterations (self st))) mod m = 0
                           then Suc (nxt (mem st)) else nxt (mem st))"
    using rf(9) by (simp add: sf)
  show "mat (mem st') a = mat (mem st) a" if "a \<noteq> p_ref fr"
    using that sf(10) [of a] by (simp add: rf(5))
  show "kde (self st') \<noteq> None" using rf(10) k by (simp add: sf)
qed


subsection \<open>The loop\<close>

lemma loop_Suc_Inr:
  "loop E m (Suc j) fr st = Inr (fr', st')
     \<Longrightarrow> \<exists>fr1 st1. body E m fr st = Inr (fr1, st1) \<and> loop E m j fr1 st1 = Inr (fr', st')"
  by (auto simp: bindE_eq_Inr)


lemma loop_built:
  "loop E m j fr st = Inr (fr', st')
     \<Longrightarrow> built st' = built st @ rebuild_counts m (iterations (self st)) j"
proof (induction j arbitrary: fr st)
  case 0
  then show ?case by simp
next
  case (Suc j)
  from loop_Suc_Inr [OF Suc.prems] obtain fr1 st1 where
    b: "body E m fr st = Inr (fr1, st1)" and l: "loop E m j fr1 st1 = Inr (fr', st')" by blast
  from Suc.IH [OF l] body_effect(1,9) [OF b] show ?case
    by (simp add: rebuild_counts_Suc)
qed

lemma loop_refs:
  "loop E m j fr st = Inr (fr', st')
     \<Longrightarrow> p_ref fr' = p_ref fr \<and> lnprior_ref fr' = lnprior_ref fr
       \<and> lnlike_ref fr' = lnlike_ref fr \<and> nxt (mem st) \<le> nxt (mem st')
       \<and> (rebuild_counts m (iterations (self st)) j = [] \<longrightarrow> lnq_ref fr' = lnq_ref fr)
       \<and> (rebuild_counts m (iterations (self st)) j \<noteq> [] \<longrightarrow> nxt (mem st) \<le> lnq_ref fr')
       \<and> (\<forall>a. a \<noteq> p_ref fr \<longrightarrow> mat (mem st') a = mat (mem st) a)"
proof (induction j arbitrary: fr st)
  case 0
  then show ?case by simp
next
  case (Suc j)
  from loop_Suc_Inr [OF Suc.prems] obtain fr1 st1 where
    b: "body E m fr st = Inr (fr1, st1)" and l: "loop E m j fr1 st1 = Inr (fr', st')" by blast
  note be = body_effect [OF b]
  note ih = Suc.IH [OF l, unfolded be(1,10,11,12)]
  show ?case
  proof (cases "int (Suc (iterations (self st))) mod m = 0")
    case True
    with be(13,14) have 1: "lnq_ref fr1 = nxt (mem st)" "nxt (mem st1) = Suc (nxt (mem st))"
      by simp_all
    from True have ne: "rebuild_counts m (iterations (self st)) (Suc j) \<noteq> []"
      by (simp add: rebuild_counts_Suc)
    have "nxt (mem st) \<le> lnq_ref fr'"
      using ih 1 by (cases "rebuild_counts m (Suc (iterations (self st))) j = []") auto
    with ih 1 ne be(15) show ?thesis by auto
  next
    case False
    with be(13,14) have 1: "lnq_ref fr1 = lnq_ref fr" "nxt (mem st1) = nxt (mem st)"
      by simp_all
    from False have eq: "rebuild_counts m (iterations (self st)) (Suc j)
        = rebuild_counts m (Suc (iterations (self st))) j"
      by (simp add: rebuild_counts_Suc)
    from ih 1 be(15) show ?thesis unfolding eq by auto
  qed
qed


lemma loop_add:
  "loop E m (j + k) fr st = bindE (loop E m j fr st) (\<lambda>(fr1, st1). loop E m k fr1 st1)"
proof (induction j arbitrary: fr st)
  case 0
  then show ?case by simp
next
  case (Suc j)
  show ?case
  proof (cases "body E m fr st")
    case (Inl e)
    then show ?thesis by simp
  next
    case (Inr x)
    then show ?thesis by (cases x) (simp add: Suc.IH)
  qed
qed

subsection \<open>Before the loop\<close>

lemma resolve_effect:
  "self (snd (resolve x0 v st)) = self st" "world (snd (resolve x0 v st)) = world st"
  "built (snd (resolve x0 v st)) = built st"
  "mat (mem (snd (resolve x0 v st))) = mat (mem st)"
  "nxt (mem (snd (resolve x0 v st))) = (case x0 of None \<Rightarrow> Suc (nxt (mem st)) | Some a \<Rightarrow> nxt (mem st))"
  "fst (resolve x0 v st) = (case x0 of None \<Rightarrow> nxt (mem st) | Some a \<Rightarrow> a)"
  "vec (mem (snd (resolve x0 v st))) = (case x0 of None \<Rightarrow> (vec (mem st))(nxt (mem st) := v) | Some a \<Rightarrow> vec (mem st))"
  by (cases x0; simp add: resolve_def)+

text \<open>The lines before the loop, stage by stage.\<close>

lemma prepare_stages:
  assumes stA_def: "stA = snd (alloc_mat (mat (mem st) p0) st)"
    and stB_def: "stB = (if kde (self st) = None then build_kde E (mat (mem st) p0) stA else stA)"
    and stC_def: "stC = snd (resolve lnprior0 (get_lnprior (self st) (mat (mem st) p0)) stB)"
    and stD_def: "stD = snd (resolve lnlike0 (get_lnlike (self st) (mat (mem st) p0)) stC)"
    and k_def: "k = (case kde (self st) of
                     None \<Rightarrow> fst (OptimizedKDE E (mat (mem st) p0) (pool (self st)) (world st))
                   | Some k' \<Rightarrow> k')"
    and pE_def: "pE = resolve lnq0 (kde_call E k (mat (mem st) p0)) stD"
  shows "prepare E p0 lnprior0 lnlike0 lnq0 st =
      Inr (\<lparr>p_ref = nxt (mem st),
            lnprior_ref = (case lnprior0 of None \<Rightarrow> Suc (nxt (mem st)) | Some a \<Rightarrow> a),
            lnlike_ref = (case lnlike0 of None \<Rightarrow> nxt (mem stC) | Some a \<Rightarrow> a),
            lnq_ref = (case lnq0 of None \<Rightarrow> nxt (mem stD) | Some a \<Rightarrow> a)\<rparr>, snd pE)"
proof -
  define pA where "pA = alloc_mat (mat (mem st) p0) st"
  define sB where "sB = (if kde (self (snd pA)) = None
      then build_kde E (mat (mem (snd pA)) (fst pA)) (snd pA) else snd pA)"
  define pC where "pC = resolve lnprior0 (get_lnprior (self sB) (mat (mem sB) (fst pA))) sB"
  define pD where "pD = resolve lnlike0 (get_lnlike (self (snd pC)) (mat (mem (snd pC)) (fst pA))) (snd pC)"
  have eq: "prepare E p0 lnprior0 lnlike0 lnq0 st =
     (case lnq0 of
           Some a \<Rightarrow>
             Inr (\<lparr>p_ref = fst pA, lnprior_ref = fst pC, lnlike_ref = fst pD, lnq_ref = a\<rparr>, snd pD)
         | None \<Rightarrow>
             (case eval_kde E (mat (mem (snd pD)) (fst pA)) (snd pD) of
                Inl e \<Rightarrow> Inl (e, snd pD)
              | Inr v \<Rightarrow>
                   Inr (\<lparr>p_ref = fst pA, lnprior_ref = fst pC, lnlike_ref = fst pD,
                         lnq_ref = fst (alloc_vec v (snd pD))\<rparr>, snd (alloc_vec v (snd pD)))))"
    unfolding prepare_def Let_def split_beta pA_def sB_def pC_def pD_def by (rule refl)
  have A: "fst pA = nxt (mem st)" "snd pA = stA" by (simp_all add: pA_def stA_def)
  have sA: "self stA = self st" "mat (mem stA) (nxt (mem st)) = mat (mem st) p0"
    "nxt (mem stA) = Suc (nxt (mem st))" "world stA = world st"
    by (simp_all add: stA_def)
  have B: "sB = stB" by (simp add: sB_def stB_def A sA)
  have sB: "mat (mem stB) (nxt (mem st)) = mat (mem st) p0" "get_lnprior (self stB) = get_lnprior (self st)"
    "get_lnlike (self stB) = get_lnlike (self st)" "kde (self stB) = Some k"
    "nxt (mem stB) = Suc (nxt (mem st))"
    by (auto simp: stB_def sA k_def)
  have C: "snd pC = stC" "fst pC = (case lnprior0 of None \<Rightarrow> Suc (nxt (mem st)) | Some a \<Rightarrow> a)"
    by (simp_all add: pC_def stC_def A B sB resolve_effect split: option.splits)
  have sC: "mat (mem stC) (nxt (mem st)) = mat (mem st) p0" "get_lnlike (self stC) = get_lnlike (self st)"
    "kde (self stC) = Some k"
    by (simp_all add: stC_def resolve_effect sB)
  have D: "snd pD = stD" "fst pD = (case lnlike0 of None \<Rightarrow> nxt (mem stC) | Some a \<Rightarrow> a)"
    by (simp_all add: pD_def stD_def A C sC resolve_effect split: option.splits)
  have sD: "mat (mem stD) (nxt (mem st)) = mat (mem st) p0" "kde (self stD) = Some k"
    by (simp_all add: stD_def resolve_effect sC)
  show ?thesis
    unfolding eq A C D
    by (cases lnq0) (simp_all add: eval_kde_def sD pE_def resolve_def)
qed

lemma prepare_effect:
  assumes "prepare E p0 lnprior0 lnlike0 lnq0 st = Inr (fr, st1)"
  shows "iterations (self st1) = iterations (self st)"
    and "nwalkers (self st1) = nwalkers (self st)" and "dim' (self st1) = dim' (self st)"
    and "chain (self st1) = chain (self st)" and "lnpost (self st1) = lnpost (self st)"
    and "lnprop (self st1) = lnprop (self st)" and "accepted (self st1) = accepted (self st)"
    and "kde (self st1) \<noteq> None"
    and "kde (self st) \<noteq> None \<Longrightarrow> kde (self st1) = kde (self st)"
    and "built st1 = built st @ (if kde (self st) = None then [iterations (self st)] else [])"
    and "p_ref fr = nxt (mem st)" and "nxt (mem st) < nxt (mem st1)"
    and "mat (mem st1) (p_ref fr) = mat (mem st) p0"
    and "b < nxt (mem st) \<Longrightarrow> mat (mem st1) b = mat (mem st) b"
proof -
  note ps = prepare_stages [OF refl refl refl refl refl refl, of E p0 lnprior0 lnlike0 lnq0 st]
  from assms [unfolded ps] have fr: "p_ref fr = nxt (mem st)"
    and st1: "st1 = snd (resolve lnq0 (kde_call E (case kde (self st) of
                     None \<Rightarrow> fst (OptimizedKDE E (mat (mem st) p0) (pool (self st)) (world st))
                   | Some k' \<Rightarrow> k') (mat (mem st) p0))
          (snd (resolve lnlike0 (get_lnlike (self st) (mat (mem st) p0))
          (snd (resolve lnprior0 (get_lnprior (self st) (mat (mem st) p0))
          (if kde (self st) = None then build_kde E (mat (mem st) p0) (snd (alloc_mat (mat (mem st) p0) st))
           else snd (alloc_mat (mat (mem st) p0) st)))))))"
    by auto
  show "p_ref fr = nxt (mem st)" by (rule fr)
  show "iterations (self st1) = iterations (self st)"
    and "nwalkers (self st1) = nwalkers (self st)" and "dim' (self st1) = dim' (self st)"
    and "chain (self st1) = chain (self st)" and "lnpost (self st1) = lnpost (self st)"
    and "lnprop (self st1) = lnprop (self st)" and "accepted (self st1) = accepted (self st)"
    and "kde (self st1) \<noteq> None"
    and "built st1 = built st @ (if kde (self st) = None then [iterations (self st)] else [])"
    by (simp_all add: st1 resolve_effect)
  show "kde (self st1) = kde (self st)" if "kde (self st) \<noteq> None"
    using that by (simp add: st1 resolve_effect)
  show "nxt (mem st) < nxt (mem st1)"
    by (simp add: st1 resolve_effect split: option.splits)
  show "mat (mem st1) (p_ref fr) = mat (mem st) p0"
    by (simp add: st1 fr resolve_effect)
  show "mat (mem st1) b = mat (mem st) b" if "b < nxt (mem st)"
    using that by (simp add: st1 resolve_effect)
qed

lemma prepare_refs:
  assumes "prepare E p0 lnprior0 lnlike0 lnq0 st = Inr (fr, st1)"
  shows "lnprior0 = Some a \<Longrightarrow> lnprior_ref fr = a"
    and "lnlike0 = Some a \<Longrightarrow> lnlike_ref fr = a"
    and "lnq0 = Some a \<Longrightarrow> lnq_ref fr = a"
  using assms [unfolded prepare_stages [OF refl refl refl refl refl refl]]
  by auto

lemma prepare_total:
  "\<exists>fr st1. prepare E p0 lnprior0 lnlike0 lnq0 st = Inr (fr, st1)"
  using prepare_stages [OF refl refl refl refl refl refl, of E p0 lnprior0 lnlike0 lnq0 st]
  by blast

lemma sample_Inr:
  assumes "sample E p0 lnprior0 lnlike0 lnq0 (int k) m st = Inr (fr', st')"
  shows "\<exists>fr st1. prepare E p0 lnprior0 lnlike0 lnq0 st = Inr (fr, st1)
            \<and> loop E m k fr (grow k st1) = Inr (fr', st')"
  using assms by (auto simp: sample_def bindE_eq_Inr)



text \<open>The passes done so far are a prefix of the whole run.\<close>

lemma run_upto_prefix:
  "j \<le> k \<Longrightarrow> run_upto E p0 lnprior0 lnlike0 lnq0 k m k st =
     bindE (run_upto E p0 lnprior0 lnlike0 lnq0 k m j st) (\<lambda>(fr, st1). loop E m (k - j) fr st1)"
proof -
  assume "j \<le> k"
  then have k: "k = j + (k - j)" by simp
  obtain fr st1 where p: "prepare E p0 lnprior0 lnlike0 lnq0 st = Inr (fr, st1)"
    using prepare_total by blast
  show ?thesis
    unfolding run_upto_def p by (subst k) (simp add: loop_add)
qed



lemma rebuild_counts_set:
  "n \<in> set (rebuild_counts m c k) \<longleftrightarrow> c < n \<and> n \<le> c + k \<and> int n mod m = 0"
  by (auto simp: rebuild_counts_def)

subsection \<open>The worked call\<close>

lemma ex_grow:
  "grow (Suc 0) (ex_running\<lparr>self := (self ex_running)\<lparr>chain := [], lnpost := [], lnprop := [], accepted := []\<rparr>\<rparr>)
     = ex_running"
  by (simp add: grow_def ex_running_def ex_sampler_def init_def numeral_2_eq_2)

lemma ex_refresh_none: "refresh ex_env 10 ex_frame ex_stepped = Inr (ex_frame, ex_stepped)"
  by (simp add: refresh_def ex_stepped_def)

lemma ex_refresh: "refresh ex_env 1 ex_frame ex_stepped = Inr (ex_frame\<lparr>lnq_ref := 5\<rparr>, ex_refreshed)"
  by (simp add: refresh_def eval_kde_def build_kde_def alloc_vec_def new_vec_def
      ex_stepped_def ex_refreshed_def ex_env_def ex_frame_def ex_sampler_def init_def)

lemma ex_sample:
  "sample ex_env 0 (Some 2) (Some 3) (Some 1) 1 10 ex_state = Inr (ex_frame, ex_stepped)"
  unfolding sample_def ex_prepare
  by (simp add: ex_grow body_def ex_step ex_refresh_none)

lemma ex_sample_refresh:
  "sample ex_env 0 (Some 2) (Some 3) (Some 1) 1 1 ex_state
     = Inr (ex_frame\<lparr>lnq_ref := 5\<rparr>, ex_refreshed)"
  unfolding sample_def ex_prepare
  by (simp add: ex_grow body_def ex_step ex_refresh)




text \<open>
  C5, as amended. The constructions of the proposal during a call that returns are, in
  order: one at the start of the call if the sampler has no proposal yet (line 99),
  and then one after each pass at whose end the cumulative counter is a multiple of
  \<open>m\<close> (line 162), and no other. \<open>built\<close> records the value of the counter at each.
\<close>

theorem constructions_in_a_call:
  assumes "sample E p0 lnprior0 lnlike0 lnq0 (int k) m st = Inr (fr', st')"
  shows "built st' = built st
           @ (if kde (self st) = None then [iterations (self st)] else [])
           @ rebuild_counts m (iterations (self st)) k
    \<and> (\<forall>n. n \<in> set (rebuild_counts m (iterations (self st)) k)
           \<longleftrightarrow> iterations (self st) < n \<and> n \<le> iterations (self st) + k \<and> int n mod m = 0)"
proof -
  from sample_Inr [OF assms(1)] obtain fr st1 where
    p: "prepare E p0 lnprior0 lnlike0 lnq0 st = Inr (fr, st1)"
    and l: "loop E m k fr (grow k st1) = Inr (fr', st')" by blast
  from loop_built [OF l] prepare_effect(1,10) [OF p] show ?thesis
    by (simp add: rebuild_counts_set)
qed

lemma ex_kde_None: "kde (self ex_state) = None" "built ex_state = []" "iterations (self ex_state) = 0"
  by (simp_all add: ex_state_def ex_sampler_def init_def)

lemma ex_no_rebuild: "rebuild_counts 10 (iterations (self ex_state)) 1 = []"
  by (simp add: rebuild_counts_def ex_kde_None)

lemma ex_built: "built ex_stepped = [0]"
  by (simp add: ex_stepped_def)

theorem constructions_in_a_call_witness:
  "sample ex_env 0 (Some 2) (Some 3) (Some 1) (int 1) 10 ex_state = Inr (ex_frame, ex_stepped)
   \<and> built ex_stepped = [0]"
proof -
  have s: "sample ex_env 0 (Some 2) (Some 3) (Some 1) (int 1) 10 ex_state = Inr (ex_frame, ex_stepped)"
    using ex_sample by simp
  from constructions_in_a_call [OF s] have "built ex_stepped = [0]"
    unfolding ex_no_rebuild by (simp add: ex_kde_None)
  with s show ?thesis by (intro conjI)
qed

text \<open>
  C5 as stated allows no construction other than the rebuilds. The first call on a
  new sampler, for one iteration with update interval 10, constructs the proposal
  although no value of the counter reached in the call is a multiple of 10.
\<close>

theorem only_rebuilds_counterexample:
  "sample ex_env 0 (Some 2) (Some 3) (Some 1) 1 10 ex_state = Inr (ex_frame, ex_stepped)
   \<and> rebuild_counts 10 (iterations (self ex_state)) 1 = []
   \<and> built ex_stepped \<noteq> built ex_state @ rebuild_counts 10 (iterations (self ex_state)) 1"
proof (intro conjI)
  show "sample ex_env 0 (Some 2) (Some 3) (Some 1) 1 10 ex_state = Inr (ex_frame, ex_stepped)"
    by (rule ex_sample)
  show "rebuild_counts 10 (iterations (self ex_state)) 1 = []"
    by (rule ex_no_rebuild)
  show "built ex_stepped \<noteq> built ex_state @ rebuild_counts 10 (iterations (self ex_state)) 1"
    unfolding ex_no_rebuild ex_built by (simp add: ex_kde_None)
qed

text \<open>
  C6. When the refresh after a step rebuilds the proposal (the counter is a multiple
  of \<open>m\<close>), the new proposal \<open>k\<close> is constructed from the current positions, the name
  \<^verbatim>\<open>lnq\<close> then refers to the density of \<open>k\<close> at these positions, for every walker, and
  the positions, the log-prior array and the log-likelihood array are what they were.
  The two arrays are arrays that exist when the refresh starts.
\<close>

theorem refresh_rescoring:
  assumes "refresh E m fr st = Inr (fr', st')" and "int (iterations (self st)) mod m = 0"
    and "lnprior_ref fr < nxt (mem st)" and "lnlike_ref fr < nxt (mem st)"
  shows "\<exists>k. (k, world st') = OptimizedKDE E (mat (mem st) (p_ref fr)) (pool (self st)) (world st)
     \<and> kde (self st') = Some k
     \<and> p_ref fr' = p_ref fr \<and> mat (mem st') (p_ref fr') = mat (mem st) (p_ref fr)
     \<and> vec (mem st') (lnq_ref fr') = kde_call E k (mat (mem st) (p_ref fr))
     \<and> lnprior_ref fr' = lnprior_ref fr
     \<and> vec (mem st') (lnprior_ref fr') = vec (mem st) (lnprior_ref fr)
     \<and> lnlike_ref fr' = lnlike_ref fr
     \<and> vec (mem st') (lnlike_ref fr') = vec (mem st) (lnlike_ref fr)"
proof -
  from refresh_Inr(3) [OF assms(1,2)] have fr: "fr' = fr\<lparr>lnq_ref := nxt (mem st)\<rparr>"
    and st: "st' = snd (alloc_vec
                   (kde_call E (fst (OptimizedKDE E (mat (mem st) (p_ref fr)) (pool (self st)) (world st)))
                      (mat (mem st) (p_ref fr)))
                   (build_kde E (mat (mem st) (p_ref fr)) st))"
    by simp_all
  show ?thesis
    using assms(3,4)
    by (intro exI [of _ "fst (OptimizedKDE E (mat (mem st) (p_ref fr)) (pool (self st)) (world st))"])
       (simp add: fr st)
qed

theorem refresh_rescoring_witness:
  "refresh ex_env 1 ex_frame ex_stepped = Inr (ex_frame\<lparr>lnq_ref := 5\<rparr>, ex_refreshed)
   \<and> int (iterations (self ex_stepped)) mod 1 = 0
   \<and> lnprior_ref ex_frame < nxt (mem ex_stepped) \<and> lnlike_ref ex_frame < nxt (mem ex_stepped)
   \<and> kde (self ex_refreshed) = Some 3
   \<and> vec (mem ex_refreshed) 5 = kde_call ex_env 3 (mat (mem ex_stepped) 4)
   \<and> vec (mem ex_refreshed) 2 = vec (mem ex_stepped) 2
   \<and> vec (mem ex_refreshed) 3 = vec (mem ex_stepped) 3"
proof -
  have h: "int (iterations (self ex_stepped)) mod 1 = 0"
    "lnprior_ref ex_frame < nxt (mem ex_stepped)" "lnlike_ref ex_frame < nxt (mem ex_stepped)"
    by (simp_all add: ex_frame_def ex_stepped_def)
  have o: "OptimizedKDE ex_env (mat (mem ex_stepped) (p_ref ex_frame)) (pool (self ex_stepped))
             (world ex_stepped) = (3, 4)"
    by (simp add: ex_env_def ex_stepped_def)
  from refresh_rescoring [OF ex_refresh h] have
    "kde (self ex_refreshed) = Some 3
   \<and> vec (mem ex_refreshed) 5 = kde_call ex_env 3 (mat (mem ex_stepped) 4)
   \<and> vec (mem ex_refreshed) 2 = vec (mem ex_stepped) 2
   \<and> vec (mem ex_refreshed) 3 = vec (mem ex_stepped) 3"
    unfolding o by (auto simp: ex_frame_def)
  with ex_refresh h show ?thesis by (intro conjI) simp_all
qed







text \<open>
  C10, as amended. A call that returns leaves the caller's position array as it was,
  and the positions it returns are an array created by the call. A supplied
  \<^verbatim>\<open>lnprior0\<close> or \<^verbatim>\<open>lnlike0\<close> is the array that is returned, and a step creates no array
  and writes to no one-dimensional array other than the three the local names refer
  to: the caller's array is updated in place. A supplied \<^verbatim>\<open>lnq0\<close> is the returned
  array exactly if no rebuild takes place in the call; a rebuild binds the name to a
  new array, and the caller's array keeps what it held then.
\<close>

theorem sample_aliasing:
  assumes "sample E p0 lnprior0 lnlike0 lnq0 (int k) m st = Inr (fr', st')"
    and "p0 < nxt (mem st)"
    and "\<forall>a. lnq0 = Some a \<longrightarrow> a < nxt (mem st)"
  shows "mat (mem st') p0 = mat (mem st) p0 \<and> nxt (mem st) \<le> p_ref fr'
    \<and> (\<forall>a. lnprior0 = Some a \<longrightarrow> lnprior_ref fr' = a)
    \<and> (\<forall>a. lnlike0 = Some a \<longrightarrow> lnlike_ref fr' = a)
    \<and> (\<forall>a. lnq0 = Some a \<longrightarrow>
          (lnq_ref fr' = a \<longleftrightarrow> rebuild_counts m (iterations (self st)) k = []))
    \<and> (\<forall>fr s s'. step E fr s = Inr s' \<longrightarrow>
          nxt (mem s') = nxt (mem s)
        \<and> (\<forall>a. a \<noteq> lnprior_ref fr \<and> a \<noteq> lnlike_ref fr \<and> a \<noteq> lnq_ref fr
               \<longrightarrow> vec (mem s') a = vec (mem s) a))"
proof -
  from sample_Inr [OF assms(1)] obtain fr st1 where
    p: "prepare E p0 lnprior0 lnlike0 lnq0 st = Inr (fr, st1)"
    and l: "loop E m k fr (grow k st1) = Inr (fr', st')" by blast
  note pe = prepare_effect [OF p] and pr = prepare_refs [OF p]
  note lr = loop_refs [OF l, unfolded grow_simps pe(1)]
  from lr have refs: "p_ref fr' = p_ref fr" "lnprior_ref fr' = lnprior_ref fr"
    "lnlike_ref fr' = lnlike_ref fr" and nx: "nxt (mem st1) \<le> nxt (mem st')"
    and q0: "rebuild_counts m (iterations (self st)) k = [] \<Longrightarrow> lnq_ref fr' = lnq_ref fr"
    and q1: "rebuild_counts m (iterations (self st)) k \<noteq> [] \<Longrightarrow> nxt (mem st1) \<le> lnq_ref fr'"
    and mt: "\<And>a. a \<noteq> p_ref fr \<Longrightarrow> mat (mem st') a = mat (mem st1) a"
    by simp_all
  have "p0 \<noteq> p_ref fr" using assms(2) pe(11) by simp
  then have m: "mat (mem st') p0 = mat (mem st) p0"
    using mt [of p0] pe(14) [OF assms(2)] by simp
  have pf: "nxt (mem st) \<le> p_ref fr'" by (simp add: refs pe(11))
  have lq: "lnq_ref fr' = a \<longleftrightarrow> rebuild_counts m (iterations (self st)) k = []"
    if "lnq0 = Some a" for a
  proof (cases "rebuild_counts m (iterations (self st)) k = []")
    case True
    with q0 pr(3) [OF that] show ?thesis by simp
  next
    case False
    from assms(3) that have "a < nxt (mem st)" by simp
    with q1 [OF False] pe(12) False show ?thesis by simp
  qed
  have inplace: "nxt (mem s') = nxt (mem s)
        \<and> (\<forall>a. a \<noteq> lnprior_ref fr \<and> a \<noteq> lnlike_ref fr \<and> a \<noteq> lnq_ref fr
               \<longrightarrow> vec (mem s') a = vec (mem s) a)"
    if "step E fr s = Inr s'" for fr s s'
    using step_frame(9,11) [OF that] by simp
  show ?thesis
    using m pf lq inplace by (simp add: refs pr)
qed

theorem sample_aliasing_witness:
  "sample ex_env 0 (Some 2) (Some 3) (Some 1) (int 1) 10 ex_state = Inr (ex_frame, ex_stepped)
   \<and> 0 < nxt (mem ex_state) \<and> 1 < nxt (mem ex_state)
   \<and> mat (mem ex_stepped) 0 = mat (mem ex_state) 0
   \<and> lnprior_ref ex_frame = 2 \<and> lnlike_ref ex_frame = 3 \<and> lnq_ref ex_frame = 1
   \<and> vec (mem ex_state) 2 = [Fin 0, Fin 2] \<and> vec (mem ex_stepped) 2 = [Fin 1, Fin 2]
   \<and> vec (mem ex_state) 1 = [Fin 7, NaN] \<and> vec (mem ex_stepped) 1 = [Fin 0, NaN]"
proof -
  have s: "sample ex_env 0 (Some 2) (Some 3) (Some 1) (int 1) 10 ex_state = Inr (ex_frame, ex_stepped)"
    using ex_sample by simp
  have v: "0 < nxt (mem ex_state)" "\<forall>a. Some 1 = Some a \<longrightarrow> a < nxt (mem ex_state)"
    by (simp_all add: ex_state_def ex_store_def)
  from sample_aliasing [OF s v] have
    "mat (mem ex_stepped) 0 = mat (mem ex_state) 0
   \<and> lnprior_ref ex_frame = 2 \<and> lnlike_ref ex_frame = 3
   \<and> (lnq_ref ex_frame = 1 \<longleftrightarrow> rebuild_counts 10 (iterations (self ex_state)) 1 = [])"
    by simp
  then have "mat (mem ex_stepped) 0 = mat (mem ex_state) 0
   \<and> lnprior_ref ex_frame = 2 \<and> lnlike_ref ex_frame = 3 \<and> lnq_ref ex_frame = 1"
    unfolding ex_no_rebuild by simp
  moreover have "1 < nxt (mem ex_state) \<and> vec (mem ex_state) 2 = [Fin 0, Fin 2]
    \<and> vec (mem ex_stepped) 2 = [Fin 1, Fin 2]
    \<and> vec (mem ex_state) 1 = [Fin 7, NaN] \<and> vec (mem ex_stepped) 1 = [Fin 0, NaN]"
    by (simp add: ex_state_def ex_stepped_def ex_store_def)
  ultimately show ?thesis using s v(1) by (intro conjI) simp_all
qed

text \<open>
  C10 as stated: a supplied \<^verbatim>\<open>lnq0\<close> is the array that is returned. In the worked call
  with update interval 1 the array returned as \<^verbatim>\<open>lnq\<close> is at address 5, the caller's is
  at address 1, and they hold different values.
\<close>

theorem returned_lnq_counterexample:
  "sample ex_env 0 (Some 2) (Some 3) (Some 1) 1 1 ex_state
     = Inr (ex_frame\<lparr>lnq_ref := 5\<rparr>, ex_refreshed)
   \<and> lnq_ref (ex_frame\<lparr>lnq_ref := 5\<rparr>) \<noteq> 1
   \<and> vec (mem ex_refreshed) 1 = [Fin 0, NaN]
   \<and> vec (mem ex_refreshed) (lnq_ref (ex_frame\<lparr>lnq_ref := 5\<rparr>)) = [Fin 3, Fin 3]"
proof (intro conjI)
  show "sample ex_env 0 (Some 2) (Some 3) (Some 1) 1 1 ex_state
     = Inr (ex_frame\<lparr>lnq_ref := 5\<rparr>, ex_refreshed)"
    by (rule ex_sample_refresh)
qed (simp_all add: ex_refreshed_def ex_stepped_def ex_store_def)













end
